(* ===== verification/Prelude.thy ===== *)
theory Prelude
  imports "HOL-Library.Word" "HOL-Library.List_Lexorder" "HOL-Library.Sublist"
begin

unbundle bit_operations_syntax

text \<open>
  Shared vocabulary of the development: the machine integers of the Rust sources, results as sums,
  byte buffers, and the lemmas on them that every component uses.

  \<^item> A Rust integer of width \<open>w\<close>, signed or not, is a \<open>w word\<close>; \<open>unat\<close> reads it unsigned and
    \<open>sint\<close> signed, and a cast between the signed and the unsigned type of one width is the
    identity. \<open>usize\<close> is a \<open>nat\<close> together with the bound \<open>USIZE_MAX\<close> of a 64-bit target
    wherever the source uses a checked, saturating or wrapping operation.
  \<^item> \<open>Result<T, E>\<close> is \<open>'e + 'a\<close> with \<open>Inl\<close> for \<open>Err\<close>; the \<open>?\<close> operator is a case distinction.
  \<^item> A buffer being read (a \<open>bytes::Buf\<close>, e.g. a \<open>&[u8]\<close>) is the list of the bytes that remain; a
    reader returns its value and the rest. No caller in the repository looks at a buffer again
    after an error, so an error carries no rest. A writer is the list of bytes it appends.
\<close>

subsection \<open>Types\<close>

type_synonym byte = "8 word"
type_synonym i8 = "8 word"
type_synonym u16 = "16 word"
type_synonym i16 = "16 word"
type_synonym u32 = "32 word"
type_synonym i32 = "32 word"
type_synonym u64 = "64 word"
type_synonym i64 = "64 word"
type_synonym u128 = "128 word"
type_synonym usize = nat

type_synonym ('e, 'a) reader = "byte list \<Rightarrow> 'e + 'a \<times> byte list"

named_theorems wire_simps \<open>rewrite rules that evaluate a reader on what the matching writer produced\<close>
named_theorems eval_simps \<open>rewrite rules that evaluate the model on concrete bytes\<close>
named_theorems len_simps \<open>lengths of what a writer produces\<close>

subsection \<open>Casts and checked arithmetic on usize\<close>

definition USIZE_MAX :: usize where
  "USIZE_MAX = 2 ^ 64 - 1"

text \<open>\<open>usize::try_from(x: i32)\<close>: fails exactly on a negative value.\<close>

definition usize_try_from_i32 :: "i32 \<Rightarrow> usize option" where
  "usize_try_from_i32 x = (if sint x < 0 then None else Some (nat (sint x)))"

text \<open>\<open>x as usize\<close> for \<open>x: i32\<close>: sign extension to 64 bits.\<close>

definition usize_of_i32 :: "i32 \<Rightarrow> usize" where
  "usize_of_i32 x = unat (scast x :: u64)"

text \<open>\<open>n as i32\<close> for \<open>n: usize\<close>: the low 32 bits.\<close>

definition i32_of_usize :: "usize \<Rightarrow> i32" where
  "i32_of_usize n = of_nat n"

definition checked_mul :: "usize \<Rightarrow> usize \<Rightarrow> usize option" where
  "checked_mul a b = (if a * b \<le> USIZE_MAX then Some (a * b) else None)"

definition saturating_mul :: "usize \<Rightarrow> usize \<Rightarrow> usize" where
  "saturating_mul a b = min (a * b) USIZE_MAX"

lemma sint_nonneg_unat:
  fixes x :: "'a::len word"
  assumes "0 \<le> sint x"
  shows "nat (sint x) = unat x"
proof -
  have "sint x < 2 ^ (LENGTH('a) - 1)"
    by (rule sint_lt)
  also have "\<dots> \<le> (2::int) ^ LENGTH('a)"
    by (rule power_increasing) simp_all
  finally have "uint x = sint x"
    using assms by (simp add: uint_sint take_bit_int_eq_self)
  then have "sint x = uint x" by (rule sym)
  then show ?thesis by (simp only: unat_eq_nat_uint)
qed

lemma sint_of_nat_i32:
  assumes "n < 2 ^ 31"
  shows "sint (of_nat n :: i32) = int n"
proof -
  have "signed_take_bit 31 (int n) = int n"
    using assms by (intro signed_take_bit_int_eq_self) simp_all
  moreover have "sint (word_of_int (int n) :: i32) = signed_take_bit 31 (int n)"
    by (simp only: sint_sbintrunc') simp
  ultimately show ?thesis by simp
qed

lemma usize_try_from_i32_Some:
  "usize_try_from_i32 x = Some n \<longleftrightarrow> 0 \<le> sint x \<and> n = unat x"
  by (auto simp: usize_try_from_i32_def sint_nonneg_unat)

lemma usize_try_from_i32_None:
  "usize_try_from_i32 x = None \<longleftrightarrow> sint x < 0"
  by (simp add: usize_try_from_i32_def)

lemma usize_try_from_of_usize [wire_simps]:
  "n < 2 ^ 31 \<Longrightarrow> usize_try_from_i32 (i32_of_usize n) = Some n"
  by (simp add: usize_try_from_i32_def i32_of_usize_def sint_of_nat_i32)

lemma usize_try_from_i32_bound:
  assumes "usize_try_from_i32 x = Some n"
  shows "n < 2 ^ 31"
proof -
  have "sint x < 2 ^ 31" using sint_lt [of x] by simp
  with assms show ?thesis
    by (auto simp: usize_try_from_i32_def split: if_splits)
qed

lemma i32_of_usize_try_from:
  "usize_try_from_i32 x = Some n \<Longrightarrow> i32_of_usize n = x"
  by (auto simp: usize_try_from_i32_Some i32_of_usize_def)

lemma usize_of_i32_nonneg:
  assumes "0 \<le> sint x"
  shows "usize_of_i32 x = unat x"
proof -
  have lt: "sint x < 2 ^ 63" using sint_lt [of x] by simp
  have "uint (scast x :: u64) = take_bit 64 (sint x)"
    by (simp add: uint_sint sint_up_scast is_up)
  also have "\<dots> = sint x"
    using assms lt by (intro take_bit_int_eq_self) simp_all
  finally have "nat (uint (scast x :: u64)) = nat (sint x)"
    by (rule arg_cong)
  then show ?thesis
    by (simp only: usize_of_i32_def unat_eq_nat_uint [of "scast x"] sint_nonneg_unat [OF assms])
qed

subsection \<open>Big-endian integers\<close>

text \<open>
  The value \<open>n\<close> bytes wide in network byte order, as \<open>to_be_bytes\<close> and the \<open>put_*\<close> operations of
  \<open>BufMut\<close> lay it out, and back, as \<open>from_be_bytes\<close> and the \<open>get_*\<close> operations of \<open>Buf\<close> read it.
\<close>

definition to_be_bytes :: "nat \<Rightarrow> 'a::len word \<Rightarrow> byte list" where
  "to_be_bytes n w = map (\<lambda>i. ucast (drop_bit (8 * i) w)) (rev [0..<n])"

definition from_be_bytes :: "byte list \<Rightarrow> 'a::len word" where
  "from_be_bytes bs = foldl (\<lambda>acc b. push_bit 8 acc OR ucast b) 0 bs"

text \<open>\<open>get_be n\<close> is \<open>Buf::get_*\<close> on \<open>n\<close> bytes: it panics on a shorter buffer, so every caller
  checks \<open>remaining\<close> first.\<close>

definition get_be :: "nat \<Rightarrow> byte list \<Rightarrow> 'a::len word \<times> byte list" where
  "get_be n src = (from_be_bytes (take n src), drop n src)"

lemma length_to_be_bytes [simp, len_simps]: "length (to_be_bytes n w) = n"
  by (simp add: to_be_bytes_def)

lemma to_be_bytes_eq_Nil [simp]: "to_be_bytes n w = [] \<longleftrightarrow> n = 0"
  by (simp add: to_be_bytes_def)

lemma to_be_bytes_eval [eval_simps]:
  "to_be_bytes (Suc 0) w = [ucast w]"
  "to_be_bytes 1 w = [ucast w]"
  "to_be_bytes 2 w = [ucast (drop_bit 8 w), ucast w]"
  "to_be_bytes 4 w =
     [ucast (drop_bit 24 w), ucast (drop_bit 16 w), ucast (drop_bit 8 w), ucast w]"
  "to_be_bytes 8 w =
     [ucast (drop_bit 56 w), ucast (drop_bit 48 w), ucast (drop_bit 40 w), ucast (drop_bit 32 w),
      ucast (drop_bit 24 w), ucast (drop_bit 16 w), ucast (drop_bit 8 w), ucast w]"
  by (simp_all add: to_be_bytes_def upt_rec numeral_eq_Suc)

lemma bit_from_be_bytes:
  "bit (from_be_bytes bs :: 'a::len word) k \<longleftrightarrow>
     k < LENGTH('a) \<and> k < 8 * length bs \<and> bit (rev bs ! (k div 8)) (k mod 8)"
proof (induction bs arbitrary: k rule: rev_induct)
  case Nil
  then show ?case by (simp add: from_be_bytes_def)
next
  case (snoc b bs)
  have step: "(from_be_bytes (bs @ [b]) :: 'a word) = push_bit 8 (from_be_bytes bs) OR ucast b"
    by (simp add: from_be_bytes_def)
  show ?case
  proof (cases "k < 8")
    case True
    then show ?thesis
      by (auto simp: step bit_simps)
  next
    case False
    then obtain j where j: "k = j + 8"
      by (metis le_add_diff_inverse2 not_less)
    have "\<not> bit b (j + 8)"
      by (auto dest: bit_imp_le_length)
    moreover have "(j + 8) div 8 - Suc 0 = j div 8"
      by arith
    ultimately show ?thesis
      by (auto simp: step j bit_simps snoc.IH)
  qed
qed

lemma bit_to_be_bytes_nth:
  assumes "i < n"
  shows "rev (to_be_bytes n w) ! i = ucast (drop_bit (8 * i) w)"
  using assms by (simp add: to_be_bytes_def rev_map)

lemma from_to_be_bytes [simp, wire_simps]:
  fixes w :: "'a::len word"
  assumes "LENGTH('a) = 8 * n"
  shows "from_be_bytes (to_be_bytes n w) = w"
proof (rule bit_word_eqI)
  fix k assume "k < LENGTH('a)"
  then have "k div 8 < n" using assms by auto
  then show "bit (from_be_bytes (to_be_bytes n w) :: 'a word) k \<longleftrightarrow> bit w k"
    using \<open>k < LENGTH('a)\<close> assms
    by (auto simp: bit_from_be_bytes bit_to_be_bytes_nth bit_simps)
qed

lemma to_from_be_bytes [simp]:
  assumes "length bs = n" "LENGTH('a::len) = 8 * n"
  shows "to_be_bytes n (from_be_bytes bs :: 'a word) = bs"
proof -
  have "rev (to_be_bytes n (from_be_bytes bs :: 'a word)) = rev bs"
  proof (rule nth_equalityI)
    show "length (rev (to_be_bytes n (from_be_bytes bs :: 'a word))) = length (rev bs)"
      using assms by simp
    fix i assume "i < length (rev (to_be_bytes n (from_be_bytes bs :: 'a word)))"
    then have i: "i < n" by simp
    show "rev (to_be_bytes n (from_be_bytes bs :: 'a word)) ! i = rev bs ! i"
    proof (rule bit_word_eqI)
      fix k assume "k < LENGTH(8)"
      then have "k < 8" by simp
      then show "bit (rev (to_be_bytes n (from_be_bytes bs :: 'a word)) ! i) k \<longleftrightarrow> bit (rev bs ! i) k"
        using i assms by (auto simp: bit_to_be_bytes_nth bit_simps bit_from_be_bytes)
    qed
  qed
  then show ?thesis by simp
qed

lemma get_be_to_be [simp, wire_simps]:
  fixes w :: "'a::len word"
  assumes "LENGTH('a) = 8 * n"
  shows "get_be n (to_be_bytes n w @ rest) = (w, rest)"
  using assms by (simp add: get_be_def)

lemma get_be_append:
  "n \<le> length src \<Longrightarrow> get_be n (src @ ys) = (case get_be n src of (w, rest) \<Rightarrow> (w, rest @ ys))"
  by (simp add: get_be_def)

lemma get_be_inverse:
  assumes "get_be n src = (w :: 'a::len word, rest)" "n \<le> length src" "LENGTH('a) = 8 * n"
  shows "src = to_be_bytes n w @ rest"
  using assms by (auto simp: get_be_def)

subsection \<open>Lists\<close>

lemma strict_prefix_split:
  assumes "strict_prefix p xs"
  obtains q where "q \<noteq> []" "xs = p @ q"
  using assms by (auto simp: strict_prefix_def prefix_def)

lemma case_prod_fst_snd: "(case p of (x, y) \<Rightarrow> f x y) = f (fst p) (snd p)"
  by (simp add: case_prod_unfold)

end
