(* ===== verification/Utf8.thy ===== *)
theory Utf8
  imports Prelude
begin

text \<open>
  What the sources use of Rust's \<open>String\<close>. A \<open>String\<close> is the list of its UTF-8 bytes, so \<open>len\<close> is
  \<open>length\<close>, \<open>as_bytes\<close> is the identity, and equality and ordering of \<open>&str\<close> are those of the bytes.
  \<open>from_utf8\<close> is the standard library's validation (the well-formed byte sequences of the Unicode
  standard, with \<open>valid_up_to\<close> and \<open>error_len\<close> of the error), \<open>chars\<close> the scalar values of a
  string, and \<open>utf16_len\<close> the unit the protocol counts its string limits in.
\<close>

type_synonym rstring = "byte list"

record utf8_error =
  valid_up_to :: nat
  error_len :: "nat option"

definition is_continuation :: "byte \<Rightarrow> bool" where
  "is_continuation b \<longleftrightarrow> 0x80 \<le> b \<and> b \<le> 0xBF"

text \<open>The width of a character by its first byte; 0 for a byte no character starts with.\<close>

definition utf8_char_width :: "byte \<Rightarrow> nat" where
  "utf8_char_width b =
     (if b < 0x80 then 1
      else if 0xC2 \<le> b \<and> b \<le> 0xDF then 2
      else if 0xE0 \<le> b \<and> b \<le> 0xEF then 3
      else if 0xF0 \<le> b \<and> b \<le> 0xF4 then 4
      else 0)"

definition second_of_three :: "byte \<Rightarrow> byte \<Rightarrow> bool" where
  "second_of_three b0 b1 \<longleftrightarrow>
     (b0 = 0xE0 \<and> 0xA0 \<le> b1 \<and> b1 \<le> 0xBF) \<or>
     (0xE1 \<le> b0 \<and> b0 \<le> 0xEC \<and> is_continuation b1) \<or>
     (b0 = 0xED \<and> 0x80 \<le> b1 \<and> b1 \<le> 0x9F) \<or>
     (0xEE \<le> b0 \<and> b0 \<le> 0xEF \<and> is_continuation b1)"

definition second_of_four :: "byte \<Rightarrow> byte \<Rightarrow> bool" where
  "second_of_four b0 b1 \<longleftrightarrow>
     (b0 = 0xF0 \<and> 0x90 \<le> b1 \<and> b1 \<le> 0xBF) \<or>
     (0xF1 \<le> b0 \<and> b0 \<le> 0xF3 \<and> is_continuation b1) \<or>
     (b0 = 0xF4 \<and> 0x80 \<le> b1 \<and> b1 \<le> 0x8F)"

text \<open>
  One step of the validation loop: past the first character of a non-empty input, or the
  \<open>error_len\<close> of the failure (\<open>None\<close> when the input ends inside the character).
\<close>

fun utf8_next :: "byte list \<Rightarrow> nat option + byte list" where
  "utf8_next [] = Inl None"
| "utf8_next (b0 # r) =
     (if utf8_char_width b0 = 1 then Inr r
      else if utf8_char_width b0 = 2 then
        (case r of [] \<Rightarrow> Inl None
         | b1 # r1 \<Rightarrow> if is_continuation b1 then Inr r1 else Inl (Some 1))
      else if utf8_char_width b0 = 3 then
        (case r of [] \<Rightarrow> Inl None
         | b1 # r1 \<Rightarrow>
             if \<not> second_of_three b0 b1 then Inl (Some 1)
             else (case r1 of [] \<Rightarrow> Inl None
                   | b2 # r2 \<Rightarrow> if is_continuation b2 then Inr r2 else Inl (Some 2)))
      else if utf8_char_width b0 = 4 then
        (case r of [] \<Rightarrow> Inl None
         | b1 # r1 \<Rightarrow>
             if \<not> second_of_four b0 b1 then Inl (Some 1)
             else (case r1 of [] \<Rightarrow> Inl None
                   | b2 # r2 \<Rightarrow>
                       if \<not> is_continuation b2 then Inl (Some 2)
                       else (case r2 of [] \<Rightarrow> Inl None
                             | b3 # r3 \<Rightarrow> if is_continuation b3 then Inr r3 else Inl (Some 3))))
      else Inl (Some 1))"

lemma utf8_next_length: "utf8_next bs = Inr r \<Longrightarrow> length r < length bs"
  by (cases bs) (auto split: if_splits list.splits)

function run_utf8_validation :: "nat \<Rightarrow> byte list \<Rightarrow> utf8_error option" where
  "run_utf8_validation i bs =
     (if bs = [] then None
      else (case utf8_next bs of
              Inl e \<Rightarrow> Some \<lparr>valid_up_to = i, error_len = e\<rparr>
            | Inr r \<Rightarrow> run_utf8_validation (i + (length bs - length r)) r))"
  by pat_completeness auto
termination
  by (relation "measure (\<lambda>(i, bs). length bs)") (auto dest: utf8_next_length)

declare run_utf8_validation.simps [simp del]

definition utf8_valid :: "byte list \<Rightarrow> bool" where
  "utf8_valid bs \<longleftrightarrow> run_utf8_validation 0 bs = None"

definition from_utf8 :: "byte list \<Rightarrow> utf8_error + rstring" where
  "from_utf8 bs = (case run_utf8_validation 0 bs of None \<Rightarrow> Inr bs | Some e \<Rightarrow> Inl e)"

text \<open>The scalar values of a string. Only meaningful on a valid one, as \<open>str::chars\<close> is.\<close>

definition low6 :: "byte \<Rightarrow> nat" where
  "low6 b = unat (b AND 0x3F)"

fun chars :: "rstring \<Rightarrow> nat list" where
  "chars [] = []"
| "chars (b0 # r) =
     (if utf8_char_width b0 = 1 then unat b0 # chars r
      else if utf8_char_width b0 = 2 then
        (case r of b1 # r1 \<Rightarrow> (unat (b0 AND 0x1F) * 64 + low6 b1) # chars r1 | [] \<Rightarrow> [])
      else if utf8_char_width b0 = 3 then
        (case r of b1 # b2 # r2 \<Rightarrow>
             (unat (b0 AND 0x0F) * 4096 + low6 b1 * 64 + low6 b2) # chars r2
         | _ \<Rightarrow> [])
      else if utf8_char_width b0 = 4 then
        (case r of b1 # b2 # b3 # r3 \<Rightarrow>
             (unat (b0 AND 0x07) * 262144 + low6 b1 * 4096 + low6 b2 * 64 + low6 b3) # chars r3
         | _ \<Rightarrow> [])
      else [])"

definition utf16_len :: "rstring \<Rightarrow> nat" where
  "utf16_len s = sum_list (map (\<lambda>c. if c < 0x10000 then 1 else 2) (chars s))"

subsection \<open>Validity\<close>

lemma run_utf8_validation_offset:
  "(run_utf8_validation i bs = None) = (run_utf8_validation j bs = None)"
proof (induction "length bs" arbitrary: i j bs rule: less_induct)
  case less
  show ?case
  proof (cases "utf8_next bs")
    case (Inr r)
    then have "length r < length bs" by (rule utf8_next_length)
    with less Inr show ?thesis
      by (simp add: run_utf8_validation.simps [of i bs] run_utf8_validation.simps [of j bs])
  qed (simp add: run_utf8_validation.simps [of i bs] run_utf8_validation.simps [of j bs])
qed

lemma from_utf8_eq: "from_utf8 bs = Inr s \<longleftrightarrow> utf8_valid bs \<and> s = bs"
  by (auto simp: from_utf8_def utf8_valid_def split: option.splits)

lemma from_utf8_valid [simp, wire_simps]: "utf8_valid s \<Longrightarrow> from_utf8 s = Inr s"
  by (simp add: from_utf8_eq)

lemma utf8_valid_Nil [simp]: "utf8_valid []"
  by (simp add: utf8_valid_def run_utf8_validation.simps)

text \<open>Validity, one character at a time.\<close>

lemma utf8_valid_next:
  "utf8_valid bs \<longleftrightarrow> bs = [] \<or> (\<exists>r. utf8_next bs = Inr r \<and> utf8_valid r)"
proof -
  have "(run_utf8_validation n r = None) = (run_utf8_validation 0 r = None)" for n r
    by (rule run_utf8_validation_offset)
  then show ?thesis
    by (auto simp: utf8_valid_def run_utf8_validation.simps [of 0 bs] split: sum.splits if_splits)
qed

lemma utf8_valid_induct [consumes 1, case_names Nil step]:
  assumes "utf8_valid bs"
    and "P []"
    and "\<And>bs r. \<lbrakk>bs \<noteq> []; utf8_next bs = Inr r; utf8_valid r; P r\<rbrakk> \<Longrightarrow> P bs"
  shows "P bs"
  using assms(1)
proof (induction "length bs" arbitrary: bs rule: less_induct)
  case less
  show ?case
  proof (cases "bs = []")
    case False
    with less.prems obtain r where "utf8_next bs = Inr r" "utf8_valid r"
      by (auto simp: utf8_valid_next [of bs])
    with False less.hyps show ?thesis
      by (blast intro: assms(3) dest: utf8_next_length)
  qed (simp add: assms(2))
qed

lemma utf8_width_ascii: "utf8_char_width b = Suc 0 \<longleftrightarrow> b < 0x80"
  by (simp add: utf8_char_width_def)

lemma utf8_valid_ascii_Cons [simp]: "b < 0x80 \<Longrightarrow> utf8_valid (b # r) = utf8_valid r"
  by (simp add: utf8_valid_next [of "b # r"] utf8_width_ascii)

lemma ascii_utf8_valid: "list_all (\<lambda>b. b < 0x80) s \<Longrightarrow> utf8_valid s"
  by (induction s) auto

lemma chars_ascii: "list_all (\<lambda>b. b < 0x80) s \<Longrightarrow> chars s = map unat s"
  by (induction s) (auto simp: utf8_width_ascii)

subsection \<open>Scalar values\<close>

lemma unat_and_mask_byte:
  fixes b :: byte
  shows "unat (b AND 0x3F) = unat b mod 64" "unat (b AND 0x1F) = unat b mod 32"
    "unat (b AND 0x0F) = unat b mod 16" "unat (b AND 0x07) = unat b mod 8"
proof -
  have m: "unat (b AND mask n) = unat b mod 2 ^ n" for n
    using take_bit_eq_mod [of n "unat b"] by (simp flip: take_bit_eq_mask unsigned_take_bit_eq)
  show "unat (b AND 0x3F) = unat b mod 64" using m [of 6] by (simp add: mask_eq_exp_minus_1)
  show "unat (b AND 0x1F) = unat b mod 32" using m [of 5] by (simp add: mask_eq_exp_minus_1)
  show "unat (b AND 0x0F) = unat b mod 16" using m [of 4] by (simp add: mask_eq_exp_minus_1)
  show "unat (b AND 0x07) = unat b mod 8" using m [of 3] by (simp add: mask_eq_exp_minus_1)
qed

lemma mod_window: "k * m \<le> n \<Longrightarrow> n < k * m + m \<Longrightarrow> n mod m = n - k * m" for n m k :: nat
  by (auto dest!: le_Suc_ex)

lemmas byte_nat_simps = word_le_nat_alt word_less_nat_alt

lemma two_byte_scalar:
  assumes "utf8_char_width b0 = 2"
  shows "0x80 \<le> unat (b0 AND 0x1F) * 64"
proof -
  have "194 \<le> unat b0" "unat b0 \<le> 223"
    using assms by (auto simp: utf8_char_width_def byte_nat_simps split: if_splits)
  then show ?thesis using mod_window [of 6 32 "unat b0"] by (simp add: unat_and_mask_byte)
qed

lemma three_byte_scalar:
  assumes "utf8_char_width b0 = 3" "second_of_three b0 b1"
  shows "0x80 \<le> unat (b0 AND 0x0F) * 4096 + low6 b1 * 64"
proof (cases "b0 = 0xE0")
  case True
  with assms(2) have "160 \<le> unat b1" "unat b1 \<le> 191"
    by (auto simp: second_of_three_def byte_nat_simps)
  then show ?thesis using mod_window [of 2 64 "unat b1"] by (simp add: low6_def unat_and_mask_byte)
next
  case False
  with assms(2) have "225 \<le> unat b0" "unat b0 \<le> 239"
    by (auto simp: second_of_three_def byte_nat_simps)
  then show ?thesis using mod_window [of 14 16 "unat b0"] by (simp add: unat_and_mask_byte)
qed

lemma four_byte_scalar:
  assumes "utf8_char_width b0 = 4" "second_of_four b0 b1"
  shows "0x10000 \<le> unat (b0 AND 0x07) * 262144 + low6 b1 * 4096"
proof (cases "b0 = 0xF0")
  case True
  with assms(2) have "144 \<le> unat b1" "unat b1 \<le> 191"
    by (auto simp: second_of_four_def byte_nat_simps)
  then show ?thesis using mod_window [of 2 64 "unat b1"] by (simp add: low6_def unat_and_mask_byte)
next
  case False
  with assms(2) have "241 \<le> unat b0" "unat b0 \<le> 244"
    by (auto simp: second_of_four_def byte_nat_simps)
  then show ?thesis using mod_window [of 30 8 "unat b0"] by (simp add: unat_and_mask_byte)
qed

text \<open>One character: its scalar value, how many bytes it takes, and when it is ASCII.\<close>

lemma utf8_next_chars:
  assumes "utf8_next bs = Inr r"
  obtains c where "chars bs = c # chars r"
    and "length bs \<le> length r + (if c < 0x10000 then 3 else 4)"
    and "c < 0x80 \<longrightarrow> (\<exists>b. bs = b # r \<and> b < 0x80 \<and> c = unat b)"
proof -
  obtain b0 t where bs: "bs = b0 # t" using assms by (cases bs) auto
  consider (w1) "utf8_char_width b0 = 1" "t = r"
    | (w2) b1 where "utf8_char_width b0 = 2" "t = b1 # r"
    | (w3) b1 b2 where "utf8_char_width b0 = 3" "t = b1 # b2 # r" "second_of_three b0 b1"
    | (w4) b1 b2 b3 where "utf8_char_width b0 = 4" "t = b1 # b2 # b3 # r" "second_of_four b0 b1"
    using assms by (auto simp: bs split: if_splits list.splits)
  then show thesis
  proof cases
    case w1
    then show thesis
      by (intro that [of "unat b0"]) (auto simp: bs utf8_width_ascii)
  next
    case w2
    then show thesis
      using two_byte_scalar [of b0]
      by (intro that [of "unat (b0 AND 0x1F) * 64 + low6 b1"]) (auto simp: bs)
  next
    case w3
    then show thesis
      using three_byte_scalar [of b0 b1]
      by (intro that [of "unat (b0 AND 0x0F) * 4096 + low6 b1 * 64 + low6 b2"]) (auto simp: bs)
  next
    case w4
    then show thesis
      using four_byte_scalar [of b0 b1]
      by (intro that [of "unat (b0 AND 0x07) * 262144 + low6 b1 * 4096 + low6 b2 * 64 + low6 b3"])
         (auto simp: bs)
  qed
qed

lemma utf8_bytes_le_utf16:
  assumes "utf8_valid s"
  shows "length s \<le> 3 * utf16_len s"
  using assms
proof (induction rule: utf8_valid_induct)
  case Nil
  then show ?case by simp
next
  case (step bs r)
  from step(2) obtain c where "chars bs = c # chars r"
      "length bs \<le> length r + (if c < 0x10000 then 3 else 4)"
      "c < 0x80 \<longrightarrow> (\<exists>b. bs = b # r \<and> b < 0x80 \<and> c = unat b)"
    by (rule utf8_next_chars)
  then show ?case
    using step.IH by (auto simp: utf16_len_def split: if_splits)
qed

lemma ascii_chars_bytes:
  assumes "utf8_valid s" "list_all (\<lambda>c. c < 0x80) (chars s)"
  shows "list_all (\<lambda>b. b < 0x80) s"
  using assms
proof (induction rule: utf8_valid_induct)
  case Nil
  then show ?case by simp
next
  case (step bs r)
  from step(2) obtain c where "chars bs = c # chars r"
      "length bs \<le> length r + (if c < 0x10000 then 3 else 4)"
      "c < 0x80 \<longrightarrow> (\<exists>b. bs = b # r \<and> b < 0x80 \<and> c = unat b)"
    by (rule utf8_next_chars)
  then show ?case
    using step.IH step.prems by auto
qed

end
