(* ===== verification/NbtTag.thy ===== *)
theory NbtTag
  imports Utf8
begin

text \<open>
  The NBT value tree, \<open>crates/nbt/src/tag.rs\<close>, with the error type of \<open>crates/nbt/src/error.rs\<close> and
  the construction macros of \<open>crates/nbt/src/macros.rs\<close>. \<open>NbtTag\<close>, \<open>NbtList\<close> and \<open>NbtCompound\<close> are
  three mutually recursive datatypes with the fields of the structs as selectors. A float is its
  IEEE bit pattern: the sources only move the bits (\<open>get_f32\<close>, \<open>put_f32\<close>). The interface locale
  \<open>ordered_store\<close> states what a client of an insertion-ordered compound may rely on; it is
  interpreted on \<open>NbtCompound\<close>, and the document invariant \<open>wf_compound\<close> is defined here.
\<close>

subsection \<open>Tag identifiers and errors\<close>

datatype tag_id =
    Id_End | Id_Byte | Id_Short | Id_Int | Id_Long | Id_Float | Id_Double | Id_ByteArray
  | Id_String | Id_List | Id_Compound | Id_IntArray | Id_LongArray

text \<open>In the order of their numbers.\<close>

instantiation tag_id :: enum
begin

definition enum_tag_id :: "tag_id list" where
  "enum_tag_id = [Id_End, Id_Byte, Id_Short, Id_Int, Id_Long, Id_Float, Id_Double, Id_ByteArray, Id_String, Id_List, Id_Compound, Id_IntArray, Id_LongArray]"

definition enum_all_tag_id :: "(tag_id \<Rightarrow> bool) \<Rightarrow> bool" where
  "enum_all_tag_id P \<longleftrightarrow> list_all P [Id_End, Id_Byte, Id_Short, Id_Int, Id_Long, Id_Float, Id_Double, Id_ByteArray, Id_String, Id_List, Id_Compound, Id_IntArray, Id_LongArray]"

definition enum_ex_tag_id :: "(tag_id \<Rightarrow> bool) \<Rightarrow> bool" where
  "enum_ex_tag_id P \<longleftrightarrow> list_ex P [Id_End, Id_Byte, Id_Short, Id_Int, Id_Long, Id_Float, Id_Double, Id_ByteArray, Id_String, Id_List, Id_Compound, Id_IntArray, Id_LongArray]"

instance
proof
  have all: "x \<in> set [Id_End, Id_Byte, Id_Short, Id_Int, Id_Long, Id_Float, Id_Double, Id_ByteArray, Id_String, Id_List, Id_Compound, Id_IntArray, Id_LongArray]" for x :: tag_id by (cases x) simp_all
  show "(UNIV :: tag_id set) = set enum_class.enum" unfolding enum_tag_id_def using all by blast
  show "distinct (enum_class.enum :: tag_id list)" by (simp add: enum_tag_id_def)
  show "enum_class.enum_all P \<longleftrightarrow> Ball UNIV P" for P :: "tag_id \<Rightarrow> bool"
    unfolding enum_all_tag_id_def list_all_iff using all by blast
  show "enum_class.enum_ex P \<longleftrightarrow> Bex UNIV P" for P :: "tag_id \<Rightarrow> bool"
    unfolding enum_ex_tag_id_def list_ex_iff using all by blast
qed

end

definition MAX_DEPTH :: usize where
  "MAX_DEPTH = 512"

definition MAX_TOTAL_NODES :: usize where
  "MAX_TOTAL_NODES = 2 ^ 16"

datatype nbt_error =
    Nbt_UnexpectedEof
  | UnknownTag byte
  | RootNotCompound tag_id
  | DepthExceeded usize
  | Nbt_NegativeLength i32
  | LengthExceedsInput usize usize
  | InvalidListElementType tag_id
  | HeterogeneousList tag_id tag_id
  | TooManyNodes usize
  | DuplicateKey rstring
  | Nbt_ArrayTooLong usize
  | Nbt_StringTooLong usize
  | Nbt_InvalidUtf8 utf8_error

text \<open>The discriminant, \<open>id as u8\<close>.\<close>

fun tag_id_code :: "tag_id \<Rightarrow> byte" where
  "tag_id_code Id_End = 0"
| "tag_id_code Id_Byte = 1"
| "tag_id_code Id_Short = 2"
| "tag_id_code Id_Int = 3"
| "tag_id_code Id_Long = 4"
| "tag_id_code Id_Float = 5"
| "tag_id_code Id_Double = 6"
| "tag_id_code Id_ByteArray = 7"
| "tag_id_code Id_String = 8"
| "tag_id_code Id_List = 9"
| "tag_id_code Id_Compound = 10"
| "tag_id_code Id_IntArray = 11"
| "tag_id_code Id_LongArray = 12"

definition tag_id_try_from :: "byte \<Rightarrow> nbt_error + tag_id" where
  "tag_id_try_from v =
     (if v = 0 then Inr Id_End
      else if v = 1 then Inr Id_Byte
      else if v = 2 then Inr Id_Short
      else if v = 3 then Inr Id_Int
      else if v = 4 then Inr Id_Long
      else if v = 5 then Inr Id_Float
      else if v = 6 then Inr Id_Double
      else if v = 7 then Inr Id_ByteArray
      else if v = 8 then Inr Id_String
      else if v = 9 then Inr Id_List
      else if v = 10 then Inr Id_Compound
      else if v = 11 then Inr Id_IntArray
      else if v = 12 then Inr Id_LongArray
      else Inl (UnknownTag v))"

subsection \<open>Values\<close>

datatype nbt_tag =
    Nbt_Byte i8
  | Nbt_Short i16
  | Nbt_Int i32
  | Nbt_Long i64
  | Nbt_Float u32
  | Nbt_Double u64
  | Nbt_ByteArray "byte list"
  | Nbt_String rstring
  | Nbt_List nbt_list
  | Nbt_Compound nbt_compound
  | Nbt_IntArray "i32 list"
  | Nbt_LongArray "i64 list"
and nbt_list = NbtList (element_type: tag_id) (items: "nbt_tag list")
and nbt_compound = NbtCompound (entries: "(rstring \<times> nbt_tag) list")

fun nbt_id :: "nbt_tag \<Rightarrow> tag_id" where
  "nbt_id (Nbt_Byte _) = Id_Byte"
| "nbt_id (Nbt_Short _) = Id_Short"
| "nbt_id (Nbt_Int _) = Id_Int"
| "nbt_id (Nbt_Long _) = Id_Long"
| "nbt_id (Nbt_Float _) = Id_Float"
| "nbt_id (Nbt_Double _) = Id_Double"
| "nbt_id (Nbt_ByteArray _) = Id_ByteArray"
| "nbt_id (Nbt_String _) = Id_String"
| "nbt_id (Nbt_List _) = Id_List"
| "nbt_id (Nbt_Compound _) = Id_Compound"
| "nbt_id (Nbt_IntArray _) = Id_IntArray"
| "nbt_id (Nbt_LongArray _) = Id_LongArray"

subsection \<open>Compounds\<close>

definition compound_new :: nbt_compound where
  "compound_new = NbtCompound []"

text \<open>\<open>iter_mut().find(..)\<close> and the replacement in place, or the push at the end.\<close>

fun insert_entry :: "rstring \<Rightarrow> nbt_tag \<Rightarrow> (rstring \<times> nbt_tag) list \<Rightarrow> (rstring \<times> nbt_tag) list" where
  "insert_entry name v [] = [(name, v)]"
| "insert_entry name v ((key, old) # es) =
     (if key = name then (key, v) # es else (key, old) # insert_entry name v es)"

definition compound_insert :: "rstring \<Rightarrow> nbt_tag \<Rightarrow> nbt_compound \<Rightarrow> nbt_compound" where
  "compound_insert name v c = NbtCompound (insert_entry name v (entries c))"

definition compound_push :: "rstring \<Rightarrow> nbt_tag \<Rightarrow> nbt_compound \<Rightarrow> nbt_compound" where
  "compound_push name v c = NbtCompound (entries c @ [(name, v)])"

definition compound_get :: "nbt_compound \<Rightarrow> rstring \<Rightarrow> nbt_tag option" where
  "compound_get c name = map_option snd (List.find (\<lambda>(key, _). key = name) (entries c))"

definition compound_len :: "nbt_compound \<Rightarrow> usize" where
  "compound_len c = length (entries c)"

definition compound_is_empty :: "nbt_compound \<Rightarrow> bool" where
  "compound_is_empty c \<longleftrightarrow> entries c = []"

definition compound_iter :: "nbt_compound \<Rightarrow> (rstring \<times> nbt_tag) list" where
  "compound_iter c = entries c"

text \<open>The names in that order, as \<open>iter().map(|(name, _)| name)\<close> collects them.\<close>

definition compound_names :: "nbt_compound \<Rightarrow> rstring list" where
  "compound_names c = map fst (compound_iter c)"

text \<open>\<open>compound! { name => value, .. }\<close>: an empty compound and one \<open>insert\<close> per pair, in order.\<close>

definition compound_macro :: "(rstring \<times> nbt_tag) list \<Rightarrow> nbt_compound" where
  "compound_macro ps = foldl (\<lambda>c (name, v). compound_insert name v c) compound_new ps"

subsection \<open>Lists\<close>

definition list_empty :: nbt_list where
  "list_empty = NbtList Id_End []"

fun find_mismatch :: "tag_id \<Rightarrow> nbt_tag list \<Rightarrow> tag_id option" where
  "find_mismatch et [] = None"
| "find_mismatch et (t # ts) = (if nbt_id t \<noteq> et then Some (nbt_id t) else find_mismatch et ts)"

definition list_new :: "nbt_tag list \<Rightarrow> nbt_error + nbt_list" where
  "list_new ts =
     (case ts of
        [] \<Rightarrow> Inr list_empty
      | first # _ \<Rightarrow>
          (case find_mismatch (nbt_id first) ts of
             Some f \<Rightarrow> Inl (HeterogeneousList (nbt_id first) f)
           | None \<Rightarrow> Inr (NbtList (nbt_id first) ts)))"

definition list_from_parts :: "tag_id \<Rightarrow> nbt_tag list \<Rightarrow> nbt_list" where
  "list_from_parts et ts = NbtList et ts"

definition list_len :: "nbt_list \<Rightarrow> usize" where
  "list_len l = length (items l)"

definition list_is_empty :: "nbt_list \<Rightarrow> bool" where
  "list_is_empty l \<longleftrightarrow> items l = []"

text \<open>\<open>list![..]\<close>.\<close>

definition list_macro :: "nbt_tag list \<Rightarrow> nbt_error + nbt_list" where
  "list_macro ts = list_new ts"

subsection \<open>Well-formed documents\<close>

text \<open>
  What the constructors and the decoder guarantee and the encoder relies on: names and strings are
  Rust strings, names within a compound are distinct, and every element of a list has the type the
  list declares. \<open>tag_nodes\<close> counts the tags the way the decoder's budget does, and \<open>tag_nesting\<close> the
  levels of compounds and non-empty lists.
\<close>

fun wf_tag :: "nbt_tag \<Rightarrow> bool"
  and wf_list :: "nbt_list \<Rightarrow> bool"
  and wf_compound :: "nbt_compound \<Rightarrow> bool" where
  "wf_tag (Nbt_String s) = utf8_valid s"
| "wf_tag (Nbt_List l) = wf_list l"
| "wf_tag (Nbt_Compound c) = wf_compound c"
| "wf_tag _ = True"
| "wf_list (NbtList et ts) = (list_all (\<lambda>t. nbt_id t = et) ts \<and> list_all wf_tag ts)"
| "wf_compound (NbtCompound es) =
     (distinct (map fst es) \<and> list_all (\<lambda>(k, t). utf8_valid k \<and> wf_tag t) es)"

fun tag_nodes :: "nbt_tag \<Rightarrow> nat"
  and compound_nodes :: "nbt_compound \<Rightarrow> nat" where
  "tag_nodes (Nbt_List (NbtList et ts)) = Suc (sum_list (map tag_nodes ts))"
| "tag_nodes (Nbt_Compound c) = Suc (compound_nodes c)"
| "tag_nodes _ = 1"
| "compound_nodes (NbtCompound es) = sum_list (map (\<lambda>(k, t). tag_nodes t) es)"

fun tag_nesting :: "nbt_tag \<Rightarrow> nat"
  and compound_nesting :: "nbt_compound \<Rightarrow> nat" where
  "tag_nesting (Nbt_List (NbtList et ts)) =
     (if ts = [] then 0 else Suc (fold max (map tag_nesting ts) 0))"
| "tag_nesting (Nbt_Compound c) = compound_nesting c"
| "tag_nesting _ = 0"
| "compound_nesting (NbtCompound es) = Suc (fold max (map (\<lambda>(k, t). tag_nesting t) es) 0)"

subsection \<open>Tag identifiers\<close>

lemma tag_id_try_from_code [simp, wire_simps]: "tag_id_try_from (tag_id_code i) = Inr i"
  by (cases i) (simp_all add: tag_id_try_from_def)

lemma tag_id_code_inject [simp]: "tag_id_code i = tag_id_code j \<longleftrightarrow> i = j"
  by (metis Inr_inject tag_id_try_from_code)

lemma tag_id_try_from_Inr: "tag_id_try_from b = Inr i \<longleftrightarrow> b = tag_id_code i"
proof
  assume "tag_id_try_from b = Inr i"
  then show "b = tag_id_code i"
    by (auto simp: tag_id_try_from_def split: if_splits)
qed simp

lemma tag_id_try_from_Inl: "tag_id_try_from b = Inl e \<longleftrightarrow> e = UnknownTag b \<and> 12 < b"
proof -
  have "b \<le> 12 \<Longrightarrow> b \<in> {0, 1, 2, 3, 4, 5, 6, 7, 8, 9, 10, 11, 12}"
    by (simp add: word_le_nat_alt word_unat_eq_iff) arith
  then show ?thesis
    by (auto simp: tag_id_try_from_def not_less [symmetric] split: if_splits)
qed

lemma nbt_id_not_End [simp]: "nbt_id t \<noteq> Id_End" "Id_End \<noteq> nbt_id t"
  by (cases t; simp)+

lemma nbt_tag_shape [case_names list compound leaf]:
  obtains et ts where "t = Nbt_List (NbtList et ts)"
  | c where "t = Nbt_Compound c"
  | "nbt_id t \<noteq> Id_List" "nbt_id t \<noteq> Id_Compound"
proof (cases t)
  case (Nbt_List l)
  then show ?thesis by (cases l) (simp add: that(1))
qed (simp_all add: that)

subsection \<open>An insertion-ordered store\<close>

locale ordered_store =
  fixes empty :: 's
    and ins :: "'k \<Rightarrow> 'v \<Rightarrow> 's \<Rightarrow> 's"
    and lookup :: "'s \<Rightarrow> 'k \<Rightarrow> 'v option"
    and keys :: "'s \<Rightarrow> 'k list"
    and inv :: "'s \<Rightarrow> bool"
  assumes inv_empty: "inv empty"
    and inv_ins: "inv s \<Longrightarrow> inv (ins k v s)"
    and keys_empty: "keys empty = []"
    and keys_ins: "inv s \<Longrightarrow> keys (ins k v s) = (if k \<in> set (keys s) then keys s else keys s @ [k])"
    and keys_distinct: "inv s \<Longrightarrow> distinct (keys s)"
    and lookup_empty: "lookup empty k = None"
    and lookup_ins: "inv s \<Longrightarrow> lookup (ins k v s) k' = (if k' = k then Some v else lookup s k')"
begin

lemma build_inv: "inv s \<Longrightarrow> inv (foldl (\<lambda>c (k, v). ins k v c) s ps)"
  by (induction ps arbitrary: s) (auto intro: inv_ins)

lemma build_lookup:
  "inv s \<Longrightarrow> lookup (foldl (\<lambda>c (k, v). ins k v c) s ps) k =
     (case map_of (rev ps) k of None \<Rightarrow> lookup s k | Some v \<Rightarrow> Some v)"
proof (induction ps arbitrary: s)
  case (Cons p ps)
  then show ?case
    by (cases p) (auto simp: inv_ins lookup_ins map_add_def split: option.splits)
qed simp

lemma build_keys:
  "inv s \<Longrightarrow> keys (foldl (\<lambda>c (k, v). ins k v c) s ps) =
     keys s @ filter (\<lambda>k. k \<notin> set (keys s)) (rev (remdups (rev (map fst ps))))"
proof (induction ps rule: rev_induct)
  case (snoc p ps)
  then show ?case
    by (cases p) (auto simp: keys_ins build_inv)
qed simp

lemma built_from_empty:
  "lookup (foldl (\<lambda>c (k, v). ins k v c) empty ps) k = map_of (rev ps) k"
  "keys (foldl (\<lambda>c (k, v). ins k v c) empty ps) = rev (remdups (rev (map fst ps)))"
  "distinct (keys (foldl (\<lambda>c (k, v). ins k v c) empty ps))"
  by (auto simp: build_lookup build_keys inv_empty lookup_empty keys_empty keys_distinct build_inv
      split: option.splits)

end

lemma insert_entry_keys:
  "map fst (insert_entry name v es) =
     (if name \<in> set (map fst es) then map fst es else map fst es @ [name])"
  by (induction es) (auto simp del: set_map simp: List.set_map [symmetric])

lemma compound_get_map_of: "compound_get c name = map_of (entries c) name"
proof -
  have "map_option snd (List.find (\<lambda>(key, _). key = name) es) = map_of es name"
    for es :: "(rstring \<times> nbt_tag) list"
    by (induction es) auto
  then show ?thesis by (simp add: compound_get_def)
qed

lemma map_of_insert_entry: "map_of (insert_entry name v es) = (map_of es)(name \<mapsto> v)"
  by (induction es) auto

interpretation compound_store: ordered_store compound_new compound_insert compound_get compound_names
  "\<lambda>c. distinct (compound_names c)"
proof unfold_locales
  fix s k v
  assume "distinct (compound_names s)"
  then show "distinct (compound_names (compound_insert k v s))"
    by (auto simp: compound_names_def compound_iter_def compound_insert_def insert_entry_keys)
qed (auto simp: compound_names_def compound_iter_def compound_insert_def compound_new_def insert_entry_keys
    compound_get_map_of map_of_insert_entry)

text \<open>
  A document built with \<open>compound!\<close> answers \<open>get\<close> with the value given last for a name, has one
  entry per name, and lists its names in the order of their first appearance.
\<close>

theorem compound_macro_spec:
  "compound_get (compound_macro ps) name = map_of (rev ps) name \<and>
   compound_names (compound_macro ps) = rev (remdups (rev (map fst ps))) \<and>
   distinct (compound_names (compound_macro ps))"
  unfolding compound_macro_def using compound_store.built_from_empty by blast

subsection \<open>Homogeneous lists\<close>

lemma find_mismatch_None: "find_mismatch et ts = None \<longleftrightarrow> list_all (\<lambda>t. nbt_id t = et) ts"
  by (induction ts) auto

lemma find_mismatch_Some: "find_mismatch et ts = Some f \<Longrightarrow> f \<noteq> et \<and> f \<in> nbt_id ` set ts"
  by (induction ts) (auto split: if_splits)

text \<open>
  \<open>NbtList::new\<close> accepts exactly the homogeneous sequences, keeps the elements, and a list it
  returns declares the type every element has.
\<close>

theorem list_new_homogeneous:
  "(\<exists>l. list_new ts = Inr l \<and> items l = ts \<and> list_all (\<lambda>t. nbt_id t = element_type l) ts) \<longleftrightarrow>
   (\<exists>et. list_all (\<lambda>t. nbt_id t = et) ts)"
proof (cases ts)
  case (Cons t ts')
  then show ?thesis
    by (auto simp: list_new_def find_mismatch_None split: option.splits dest: find_mismatch_Some)
       (auto simp: find_mismatch_None [symmetric] list_all_iff)
qed (simp add: list_new_def list_empty_def)

text \<open>The list built from a sequence has its length, and is empty exactly when the sequence is.\<close>

lemma list_macro_len:
  "list_macro ts = Inr l \<Longrightarrow> list_len l = length ts \<and> (list_is_empty l \<longleftrightarrow> ts = [])"
  by (auto simp: list_macro_def list_new_def list_len_def list_is_empty_def list_empty_def
      split: list.splits option.splits)

end
