(* ===== verification/ProtocolError.thy ===== *)
theory ProtocolError
  imports NbtTag
begin

text \<open>
  \<open>crates/protocol/src/error.rs\<close>: the connection states, the directions, and every way encoding or
  decoding can fail. The errors of \<open>serde_json\<close> and \<open>std::io\<close> are only ever displayed by the
  sources, so each is its message.
\<close>

datatype state = Handshaking | Status | Login | Configuration | Play

datatype direction = Serverbound | Clientbound

text \<open>The states can be enumerated, so a statement about all of them can be evaluated.\<close>

instantiation state :: enum
begin

definition enum_state :: "state list" where
  "enum_state = [Handshaking, Status, Login, Configuration, Play]"

definition enum_all_state :: "(state \<Rightarrow> bool) \<Rightarrow> bool" where
  "enum_all_state P \<longleftrightarrow> list_all P [Handshaking, Status, Login, Configuration, Play]"

definition enum_ex_state :: "(state \<Rightarrow> bool) \<Rightarrow> bool" where
  "enum_ex_state P \<longleftrightarrow> list_ex P [Handshaking, Status, Login, Configuration, Play]"

instance
proof
  have all: "x \<in> set [Handshaking, Status, Login, Configuration, Play]" for x :: state by (cases x) simp_all
  show "(UNIV :: state set) = set enum_class.enum" unfolding enum_state_def using all by blast
  show "distinct (enum_class.enum :: state list)" by (simp add: enum_state_def)
  show "enum_class.enum_all P \<longleftrightarrow> Ball UNIV P" for P :: "state \<Rightarrow> bool"
    unfolding enum_all_state_def list_all_iff using all by blast
  show "enum_class.enum_ex P \<longleftrightarrow> Bex UNIV P" for P :: "state \<Rightarrow> bool"
    unfolding enum_ex_state_def list_ex_iff using all by blast
qed

end

type_synonym json_error = rstring
type_synonym io_error = rstring

datatype protocol_error =
    VarIntTooLong usize
  | UnexpectedEof
  | NegativeLength i32
  | FrameTooLarge usize usize
  | StringTooLong usize usize
  | ArrayTooLong usize usize
  | InvalidBoolean byte
  | CompressedSizeMismatch usize usize
  | Decompression rstring
  | Nbt nbt_error
  | CompressedBelowThreshold usize i32
  | InvalidUtf8 utf8_error
  | InvalidNextState i32
  | Json json_error
  | Io io_error
  | TrailingBytes usize

type_synonym 'a preader = "(protocol_error, 'a) reader"

end
