(* ===== verification/WireCodec.thy ===== *)
theory WireCodec
  imports Prelude
begin

text \<open>
  The interfaces the wire formats of the repository share: an encoder that may refuse a value, and
  a decoder that takes the value off the front of its input.

  \<^item> \<open>wire_codec\<close>: what was encoded is decoded, with nothing of the following bytes consumed.
  \<^item> \<open>streaming_codec\<close>: moreover a successful decode does not depend on the bytes after it. A
    truncated encoding is then never mistaken for a complete one.
  \<^item> \<open>canonical_codec\<close>: moreover only the encoder's own output is accepted, so a value has one
    wire form. Every canonical codec is a streaming codec.

  Each is interpreted where its provider is defined: the varints, strings and integers of
  \<open>pyrite-protocol\<close>, both forms of an NBT document, and the bodies of the packets.
\<close>

locale wire_codec =
  fixes enc :: "'a \<Rightarrow> 'f + byte list"
    and dec :: "('e, 'a) reader"
    and ok :: "'a \<Rightarrow> bool"
  assumes dec_enc: "enc x = Inr bs \<Longrightarrow> ok x \<Longrightarrow> dec (bs @ rest) = Inr (x, rest)"
begin

lemma dec_enc_exact: "enc x = Inr bs \<Longrightarrow> ok x \<Longrightarrow> dec bs = Inr (x, [])"
  using dec_enc [of x bs "[]"] by simp

lemma enc_prefix_free:
  assumes "enc x = Inr bs" "ok x" "enc y = Inr (bs @ ys)" "ok y"
  shows "x = y \<and> ys = []"
  using dec_enc [OF assms(1,2), of ys] dec_enc_exact [OF assms(3,4)] by simp

lemma enc_inj:
  assumes "enc x = Inr bs" "ok x" "enc y = Inr bs" "ok y"
  shows "x = y"
  using enc_prefix_free [of x bs y "[]"] assms by simp

end

locale streaming_codec = wire_codec +
  assumes dec_extend: "dec src = Inr (x, rest) \<Longrightarrow> dec (src @ ys) = Inr (x, rest @ ys)"
begin

lemma truncated_rejected:
  assumes "enc x = Inr bs" "ok x" "strict_prefix p bs"
  shows "\<exists>e. dec p = Inl e"
proof (rule ccontr)
  assume "\<nexists>e. dec p = Inl e"
  then obtain y rest where *: "dec p = Inr (y, rest)" by (cases "dec p") auto
  from assms(3) obtain q where "q \<noteq> []" "bs = p @ q" by (rule strict_prefix_split)
  then show False
    using dec_extend [OF *, of q] dec_enc_exact [OF assms(1,2)] by simp
qed

end

locale canonical_codec = wire_codec +
  assumes enc_dec: "dec src = Inr (x, rest) \<Longrightarrow> ok x \<and> (\<exists>bs. enc x = Inr bs \<and> src = bs @ rest)"

sublocale canonical_codec \<subseteq> streaming_codec
proof
  fix src x rest ys
  assume "dec src = Inr (x, rest)"
  then obtain bs where "enc x = Inr bs" "src = bs @ rest" "ok x" using enc_dec by blast
  then show "dec (src @ ys) = Inr (x, rest @ ys)" using dec_enc by simp
qed

subsection \<open>Sequences of readers\<close>

text \<open>
  \<open>let x = r(src)?; k\<close> is \<open>rbind r (\<lambda>x. k)\<close>, \<open>Ok(x)\<close> is \<open>rreturn x\<close>, and a fallible conversion of a
  value already read is \<open>rlift\<close>.
\<close>

definition rbind :: "('e, 'a) reader \<Rightarrow> ('a \<Rightarrow> ('e, 'b) reader) \<Rightarrow> ('e, 'b) reader" where
  "rbind r k src = (case r src of Inl e \<Rightarrow> Inl e | Inr (x, src') \<Rightarrow> k x src')"

definition rreturn :: "'a \<Rightarrow> ('e, 'a) reader" where
  "rreturn x src = Inr (x, src)"

definition rlift :: "'e + 'a \<Rightarrow> ('e, 'a) reader" where
  "rlift v src = (case v of Inl e \<Rightarrow> Inl e | Inr x \<Rightarrow> Inr (x, src))"

text \<open>A reader that does not depend on the bytes after its value.\<close>

definition extends :: "('e, 'a) reader \<Rightarrow> bool" where
  "extends r \<longleftrightarrow> (\<forall>src x rest ys. r src = Inr (x, rest) \<longrightarrow> r (src @ ys) = Inr (x, rest @ ys))"

named_theorems extend_intros \<open>readers that satisfy the extension law\<close>

lemma extendsD: "extends r \<Longrightarrow> r src = Inr (x, rest) \<Longrightarrow> r (src @ ys) = Inr (x, rest @ ys)"
  by (simp add: extends_def)

lemma extends_rbind [extend_intros]:
  assumes "extends r" "\<And>x. extends (k x)"
  shows "extends (rbind r k)"
  unfolding extends_def
proof (intro allI impI)
  fix src x rest ys
  assume "rbind r k src = Inr (x, rest)"
  then obtain y src' where "r src = Inr (y, src')" "k y src' = Inr (x, rest)"
    by (auto simp: rbind_def split: sum.splits)
  then show "rbind r k (src @ ys) = Inr (x, rest @ ys)"
    using extendsD [OF assms(1)] extendsD [OF assms(2)] by (simp add: rbind_def)
qed

lemma extends_rreturn [extend_intros]: "extends (rreturn x)"
  by (simp add: extends_def rreturn_def)

lemma extends_rlift [extend_intros]: "extends (rlift v)"
  by (auto simp: extends_def rlift_def split: sum.splits)

lemmas reader_defs = rbind_def rreturn_def rlift_def

end
