(* ===== verification/VarInt.thy ===== *)
theory VarInt
  imports ProtocolError WireCodec
begin

text \<open>
  \<open>crates/protocol/src/varint.rs\<close>. The 32-bit and the 64-bit functions of the source are the same
  loop at two widths, so the loop is written once over \<open>'a::len word\<close>: \<open>write_leb\<close> is the body of
  \<open>write_varint\<close> and \<open>write_varlong\<close>, \<open>read_leb\<close> the \<open>for\<close> loop of \<open>read_varint\<close> and
  \<open>read_varlong\<close>, and \<open>slice_leb\<close> that of the non-consuming \<open>read_varint_slice\<close>.
\<close>

definition MAX_VARINT_LEN :: usize where
  "MAX_VARINT_LEN = 5"

definition MAX_VARLONG_LEN :: usize where
  "MAX_VARLONG_LEN = 10"

definition CONTINUATION_BIT :: byte where
  "CONTINUATION_BIT = 0x80"

definition PAYLOAD_MASK :: byte where
  "PAYLOAD_MASK = 0x7f"

subsection \<open>Encoding\<close>

lemma unat_drop_bit: "unat (drop_bit n w) = unat w div 2 ^ n" for w :: "'a::len word"
  by (simp only: unat_drop_bit_eq) (simp only: drop_bit_eq_div)

function write_leb :: "'a::len word \<Rightarrow> byte list" where
  "write_leb remaining =
     (if remaining AND NOT (ucast PAYLOAD_MASK) = 0 then [ucast remaining]
      else ((ucast remaining AND PAYLOAD_MASK) OR CONTINUATION_BIT) # write_leb (drop_bit 7 remaining))"
  by pat_completeness auto

termination
proof (relation "measure unat")
  fix w :: "'a word"
  assume "w AND NOT (ucast PAYLOAD_MASK) \<noteq> 0"
  then have "w \<noteq> 0" by auto
  then have "0 < unat w" by (simp add: unat_gt_0)
  then have "unat (drop_bit 7 w) < unat w"
    by (simp only: unat_drop_bit) simp
  then show "(drop_bit 7 w, w) \<in> measure unat" by simp
qed simp

declare write_leb.simps [simp del]

definition write_varint :: "i32 \<Rightarrow> byte list" where
  "write_varint value = write_leb value"

definition write_varlong :: "i64 \<Rightarrow> byte list" where
  "write_varlong value = write_leb value"

definition varint_len :: "i32 \<Rightarrow> usize" where
  "varint_len value =
     (if value \<le> 0x7f then 1
      else if value \<le> 0x3fff then 2
      else if value \<le> 0x1fffff then 3
      else if value \<le> 0x0fffffff then 4
      else 5)"

subsection \<open>Decoding\<close>

function read_leb :: "usize \<Rightarrow> nat \<Rightarrow> 'a::len word \<Rightarrow> 'a word preader" where
  "read_leb limit index result src =
     (if index < limit then
        (case src of
           [] \<Rightarrow> Inl UnexpectedEof
         | byte # src' \<Rightarrow>
             (let result' = result OR push_bit (7 * index) (ucast (byte AND PAYLOAD_MASK)) in
               if byte AND CONTINUATION_BIT = 0 then Inr (result', src')
               else read_leb limit (index + 1) result' src'))
      else Inl (VarIntTooLong limit))"
  by pat_completeness auto
termination
  by (relation "measure (\<lambda>(limit, index, _). limit - index)") auto

declare read_leb.simps [simp del]

definition read_varint :: "i32 preader" where
  "read_varint src = read_leb MAX_VARINT_LEN 0 0 src"

definition read_varlong :: "i64 preader" where
  "read_varlong src = read_leb MAX_VARLONG_LEN 0 0 src"

function slice_leb :: "usize \<Rightarrow> nat \<Rightarrow> 'a::len word \<Rightarrow> byte list \<Rightarrow>
    protocol_error + ('a word \<times> usize) option" where
  "slice_leb limit index result src =
     (if index < limit then
        (if index < length src then
           (let byte = src ! index;
                result' = result OR push_bit (7 * index) (ucast (byte AND PAYLOAD_MASK)) in
             if byte AND CONTINUATION_BIT = 0 then Inr (Some (result', index + 1))
             else slice_leb limit (index + 1) result' src)
         else Inr None)
      else Inl (VarIntTooLong limit))"
  by pat_completeness auto
termination
  by (relation "measure (\<lambda>(limit, index, _). limit - index)") auto

declare slice_leb.simps [simp del]

definition read_varint_slice :: "byte list \<Rightarrow> protocol_error + (i32 \<times> usize) option" where
  "read_varint_slice src = slice_leb MAX_VARINT_LEN 0 0 src"

subsection \<open>Reading what was written\<close>

lemma bit_payload_mask [simp]: "bit PAYLOAD_MASK k \<longleftrightarrow> k < 7"
proof -
  have eq: "PAYLOAD_MASK = mask 7" by (simp add: PAYLOAD_MASK_def mask_eq_exp_minus_1)
  show ?thesis unfolding eq bit_mask_iff by auto
qed

lemma bit_continuation [simp]: "bit CONTINUATION_BIT k \<longleftrightarrow> k = 7"
proof -
  have eq: "CONTINUATION_BIT = 2 ^ 7" by (simp add: CONTINUATION_BIT_def)
  show ?thesis unfolding eq bit_exp_iff by auto
qed

lemma continuation_set: "b AND CONTINUATION_BIT = 0 \<longleftrightarrow> \<not> bit b 7"
  by (auto simp: bit_eq_iff [of "b AND CONTINUATION_BIT"] bit_simps dest: spec [of _ 7])

lemma last_group_iff:
  fixes w :: "'a::len word"
  shows "w AND NOT (ucast PAYLOAD_MASK) = 0 \<longleftrightarrow> (\<forall>k. bit w k \<longrightarrow> k < 7)"
  by (auto simp: bit_eq_iff bit_simps dest: bit_imp_le_length)

lemma last_group_value:
  fixes w :: "'a::len word"
  assumes "w AND NOT (ucast PAYLOAD_MASK) = 0"
  shows "ucast ((ucast w :: byte) AND PAYLOAD_MASK) = w" "\<not> bit (ucast w :: byte) 7"
  using assms [unfolded last_group_iff]
  by (auto simp: bit_eq_iff bit_simps dest: bit_imp_le_length)

lemma more_group:
  fixes w r :: "'a::len word"
  assumes "b = (ucast w AND PAYLOAD_MASK) OR CONTINUATION_BIT"
  shows "(r OR push_bit (7 * i) (ucast (b AND PAYLOAD_MASK))) OR push_bit (7 * (i + 1)) (drop_bit 7 w) =
      r OR push_bit (7 * i) w"
    and "b AND CONTINUATION_BIT \<noteq> 0"
proof -
  have w: "ucast (b AND PAYLOAD_MASK) OR push_bit 7 (drop_bit 7 w) = w"
  proof (rule bit_word_eqI)
    fix n
    show "bit (ucast (b AND PAYLOAD_MASK) OR push_bit 7 (drop_bit 7 w)) n \<longleftrightarrow> bit w n"
      by (cases "n < 7") (auto simp: assms bit_simps dest: bit_imp_le_length)
  qed
  have "push_bit (7 * (i + 1)) (drop_bit 7 w) = push_bit (7 * i) (push_bit 7 (drop_bit 7 w))"
    by (simp only: push_bit_push_bit distrib_left mult_1_right)
  then show "(r OR push_bit (7 * i) (ucast (b AND PAYLOAD_MASK))) OR push_bit (7 * (i + 1)) (drop_bit 7 w) =
      r OR push_bit (7 * i) w"
    by (simp only: or.assoc push_bit_or [symmetric] w)
  show "b AND CONTINUATION_BIT \<noteq> 0"
    unfolding continuation_set assms by (simp add: bit_simps)
qed

lemma read_leb_write:
  fixes w r :: "'a::len word"
  assumes "i + length (write_leb w) \<le> limit"
  shows "read_leb limit i r (write_leb w @ rest) = Inr (r OR push_bit (7 * i) w, rest)"
  using assms
proof (induction w arbitrary: i r rule: write_leb.induct)
  case (1 w)
  show ?case
  proof (cases "w AND NOT (ucast PAYLOAD_MASK) = 0")
    case True
    then show ?thesis
      using "1.prems" last_group_value [OF True]
      by (simp add: write_leb.simps [of w] read_leb.simps [of limit i] continuation_set)
  next
    case False
    define b where "b = (ucast w AND PAYLOAD_MASK) OR CONTINUATION_BIT"
    have w: "write_leb w = b # write_leb (drop_bit 7 w)"
      using False by (simp add: write_leb.simps [of w] b_def)
    then have "read_leb limit i r (write_leb w @ rest) =
        read_leb limit (i + 1) (r OR push_bit (7 * i) (ucast (b AND PAYLOAD_MASK)))
          (write_leb (drop_bit 7 w) @ rest)"
      using "1.prems" more_group(2) [OF b_def] by (simp add: read_leb.simps [of limit i] Let_def)
    also have "\<dots> = Inr (r OR push_bit (7 * i) w, rest)"
      using "1.prems" False more_group(1) [OF b_def] w by (simp add: "1.IH")
    finally show ?thesis .
  qed
qed

text \<open>A value of at most \<open>7 * n\<close> bits takes at most \<open>n\<close> bytes, and conversely.\<close>

lemma last_group_unat:
  fixes w :: "'a::len word"
  shows "w AND NOT (ucast PAYLOAD_MASK) = 0 \<longleftrightarrow> unat w < 2 ^ 7"
proof -
  have "(\<forall>k. bit w k \<longrightarrow> k < 7) \<longleftrightarrow> take_bit 7 w = w"
    by (auto simp: bit_eq_iff [of "take_bit 7 w"] bit_simps dest: bit_imp_le_length)
  also have "\<dots> \<longleftrightarrow> take_bit 7 (unat w) = unat w"
    by (simp only: unsigned_take_bit_eq [symmetric] unsigned_word_eqI word_unat_eq_iff)
  also have "\<dots> \<longleftrightarrow> unat w < 2 ^ 7" by (rule take_bit_nat_eq_self_iff)
  finally show ?thesis by (simp only: last_group_iff)
qed

lemma length_write_leb:
  fixes w :: "'a::len word"
  shows "length (write_leb w) \<le> Suc n \<longleftrightarrow> unat w < 2 ^ (7 * Suc n)"
proof (induction w arbitrary: n rule: write_leb.induct)
  case (1 w)
  show ?case
  proof (cases "unat w < 2 ^ 7")
    case True
    then have "unat w < 2 ^ (7 * Suc n)"
      by (rule less_le_trans) (rule power_increasing; simp)
    with True show ?thesis by (simp add: write_leb.simps [of w] last_group_unat)
  next
    case False
    then have IH: "length (write_leb (drop_bit 7 w)) \<le> Suc m \<longleftrightarrow> unat (drop_bit 7 w) < 2 ^ (7 * Suc m)" for m
      using "1.IH" [of m] by (simp add: last_group_unat)
    have ne: "length (write_leb v) \<noteq> 0" for v :: "'a word"
      by (simp add: write_leb.simps [of v])
    have len: "length (write_leb w) = Suc (length (write_leb (drop_bit 7 w)))"
      using False by (simp add: write_leb.simps [of w] last_group_unat)
    show ?thesis
    proof (cases n)
      case 0
      then show ?thesis using False ne [of "drop_bit 7 w"] by (simp add: len)
    next
      case (Suc m)
      have "unat w div 2 ^ 7 < 2 ^ (7 * Suc m) \<longleftrightarrow> unat w < 2 ^ (7 * Suc (Suc m))"
        by (simp add: div_less_iff_less_mult power_add)
      then show ?thesis using IH [of m] by (simp only: len Suc unat_drop_bit Suc_le_mono)
    qed
  qed
qed

lemma length_write_varint_le: "length (write_varint v) \<le> MAX_VARINT_LEN"
proof -
  have "unat v < 2 ^ (7 * Suc 4)" using unsigned_less [of v, where 'a = nat] by simp
  then show ?thesis
    using length_write_leb [of v 4] by (simp add: write_varint_def MAX_VARINT_LEN_def)
qed

lemma length_write_varlong_le: "length (write_varlong v) \<le> MAX_VARLONG_LEN"
proof -
  have "unat v < 2 ^ (7 * Suc 9)" using unsigned_less [of v, where 'a = nat] by simp
  then show ?thesis
    using length_write_leb [of v 9] by (simp add: write_varlong_def MAX_VARLONG_LEN_def)
qed

lemma read_varint_write [simp, wire_simps]: "read_varint (write_varint v @ rest) = Inr (v, rest)"
  using read_leb_write [of 0 v MAX_VARINT_LEN 0 rest] length_write_varint_le [of v]
  by (simp add: read_varint_def write_varint_def)

lemma read_varlong_write [simp, wire_simps]: "read_varlong (write_varlong v @ rest) = Inr (v, rest)"
  using read_leb_write [of 0 v MAX_VARLONG_LEN 0 rest] length_write_varlong_le [of v]
  by (simp add: read_varlong_def write_varlong_def)

lemma length_write_varint [simp, len_simps]: "length (write_varint v) = varint_len v"
proof -
  define n where "n = length (write_varint v)"
  have len: "n \<le> Suc m \<longleftrightarrow> unat v < 2 ^ (7 * Suc m)" for m
    by (simp only: n_def write_varint_def length_write_leb)
  have "1 \<le> n" by (simp add: n_def write_varint_def write_leb.simps [of v])
  moreover have "n \<le> 5"
    using length_write_varint_le [of v] by (simp add: n_def MAX_VARINT_LEN_def)
  ultimately have "n = varint_len v"
    using len [of 0] len [of 1] len [of 2] len [of 3]
    by (auto simp: varint_len_def word_le_nat_alt)
  then show ?thesis by (simp add: n_def)
qed

lemma varint_len_bounds [simp]: "0 < varint_len v" "varint_len v \<noteq> 0" "varint_len v \<le> 5"
  by (auto simp: varint_len_def)

subsection \<open>What the decoder accepts\<close>

text \<open>
  An encoding is a run of bytes with the continuation bit and one byte without it; its value
  joins the 7-bit groups.
\<close>

definition continues :: "byte \<Rightarrow> bool" where
  "continues b \<longleftrightarrow> b AND CONTINUATION_BIT \<noteq> 0"

fun leb_value :: "nat \<Rightarrow> 'a::len word \<Rightarrow> byte list \<Rightarrow> 'a word" where
  "leb_value i r [] = r"
| "leb_value i r (b # bs) =
     leb_value (i + 1) (r OR push_bit (7 * i) (ucast (b AND PAYLOAD_MASK))) bs"

lemma read_leb_spec:
  "i \<le> limit \<Longrightarrow> read_leb limit i r src =
     (if limit \<le> i + length (takeWhile continues src) then Inl (VarIntTooLong limit)
      else (case dropWhile continues src of
              [] \<Rightarrow> Inl UnexpectedEof
            | b # rest \<Rightarrow> Inr (leb_value i r (takeWhile continues src @ [b]), rest)))"
proof (induction src arbitrary: i r)
  case (Cons b src)
  show ?case
  proof (cases "i < limit")
    case True
    then show ?thesis
      using Cons.IH [of "Suc i"]
      by (auto simp: read_leb.simps [of limit i] continues_def [of b] Let_def
          simp del: dropWhile_eq_Nil_conv split: list.splits)
  qed (use Cons.prems in \<open>simp add: read_leb.simps [of limit]\<close>)
qed (auto simp: read_leb.simps)

lemma slice_leb_spec:
  "i \<le> length src \<Longrightarrow> slice_leb limit i r src =
     (case read_leb limit i r (drop i src) of
        Inl e \<Rightarrow> if e = UnexpectedEof then Inr None else Inl e
      | Inr (v, rest) \<Rightarrow> Inr (Some (v, length src - length rest)))"
proof (induction limit i r src rule: slice_leb.induct)
  case (1 limit i r src)
  show ?case
  proof (cases "i < limit \<and> i < length src")
    case True
    then have d: "drop i src = src ! i # drop (Suc i) src" by (simp add: Cons_nth_drop_Suc)
    from True "1.IH" show ?thesis
      by (simp add: slice_leb.simps [of limit i] read_leb.simps [of limit i] d Let_def)
  qed (use "1.prems" in \<open>auto simp: slice_leb.simps [of limit i] read_leb.simps [of limit i]\<close>)
qed

lemma read_leb_extend:
  "read_leb limit i r src = Inr (v, rest) \<Longrightarrow> read_leb limit i r (src @ ys) = Inr (v, rest @ ys)"
proof (induction limit i r src rule: read_leb.induct)
  case (1 limit i r src)
  then show ?case
    by (cases src)
       (auto simp: read_leb.simps [of limit i] Let_def split: if_splits)
qed

lemma bit_leb_value:
  fixes r :: "'a::len word"
  assumes "\<And>k. bit r k \<Longrightarrow> k < 7 * i"
  shows "bit (leb_value i r bs) k \<Longrightarrow> k < 7 * (i + length bs)"
  using assms
proof (induction bs arbitrary: i r)
  case (Cons b bs)
  let ?r = "r OR push_bit (7 * i) (ucast (b AND PAYLOAD_MASK))"
  have "bit ?r k \<Longrightarrow> k < 7 * (i + 1)" for k
    using Cons.prems(2) [of k] by (auto simp: bit_simps)
  with Cons.IH [of "i + 1" ?r] Cons.prems(1) show ?case by simp
qed simp

lemma unat_leb_value: "unat (leb_value 0 0 bs :: 'a::len word) < 2 ^ (7 * length bs)"
proof -
  let ?v = "leb_value 0 0 bs :: 'a word"
  have "take_bit (7 * length bs) ?v = ?v"
    using bit_leb_value [of "0 :: 'a word" 0 bs]
    by (auto simp: bit_eq_iff [of "take_bit (7 * length bs) ?v"] bit_simps)
  then have "take_bit (7 * length bs) (unat ?v) = unat ?v"
    by (simp only: unsigned_take_bit_eq [symmetric])
  then show ?thesis by (simp only: take_bit_nat_eq_self_iff)
qed

lemma read_leb_minimal:
  assumes "read_leb limit 0 0 src = Inr (v, rest)"
  shows "length (write_leb v) \<le> length src - length rest"
proof -
  from assms obtain b where
      v: "v = leb_value 0 0 (takeWhile continues src @ [b])" and d: "dropWhile continues src = b # rest"
    by (auto simp: read_leb_spec split: if_splits list.splits)
  have "length src = length (takeWhile continues src @ dropWhile continues src)" by simp
  then have "length src - length rest = Suc (length (takeWhile continues src))"
    by (simp only: d length_append) simp
  moreover have "length (write_leb v) \<le> Suc (length (takeWhile continues src))"
    unfolding length_write_leb v
    using unat_leb_value [of "takeWhile continues src @ [b]", where 'a = 'a] by simp
  ultimately show ?thesis by simp
qed

subsection \<open>The interface\<close>

lemma read_varint_extend:
  "read_varint src = Inr (v, rest) \<Longrightarrow> read_varint (src @ ys) = Inr (v, rest @ ys)"
  by (simp add: read_varint_def read_leb_extend)

lemma read_varlong_extend:
  "read_varlong src = Inr (v, rest) \<Longrightarrow> read_varlong (src @ ys) = Inr (v, rest @ ys)"
  by (simp add: read_varlong_def read_leb_extend)

interpretation varint: streaming_codec "\<lambda>v. Inr (write_varint v)" read_varint "\<lambda>_. True"
  by unfold_locales (auto intro: read_varint_extend)

interpretation varlong: streaming_codec "\<lambda>v. Inr (write_varlong v)" read_varlong "\<lambda>_. True"
  by unfold_locales (auto intro: read_varlong_extend)

text \<open>The non-consuming decoder, in terms of the consuming one.\<close>

lemma read_varint_slice_eq:
  "read_varint_slice src =
     (case read_varint src of
        Inl e \<Rightarrow> if e = UnexpectedEof then Inr None else Inl e
      | Inr (v, rest) \<Rightarrow> Inr (Some (v, length src - length rest)))"
  using slice_leb_spec [of 0 src MAX_VARINT_LEN 0] by (simp add: read_varint_slice_def read_varint_def)

lemma read_varint_spec:
  "read_varint src =
     (if 5 \<le> length (takeWhile continues src) then Inl (VarIntTooLong 5)
      else (case dropWhile continues src of
              [] \<Rightarrow> Inl UnexpectedEof
            | b # rest \<Rightarrow> Inr (leb_value 0 0 (takeWhile continues src @ [b]), rest)))"
  using read_leb_spec [of 0 5 0 src] by (simp add: read_varint_def MAX_VARINT_LEN_def)

lemma read_varint_shrinks:
  assumes "read_varint src = Inr (v, rest)"
  shows "\<exists>bs. src = bs @ rest \<and> 1 \<le> length bs \<and> length bs \<le> 5"
proof -
  from assms obtain b where "dropWhile continues src = b # rest" "length (takeWhile continues src) < 5"
    by (auto simp: read_varint_spec split: if_splits list.splits)
  then have "src = (takeWhile continues src @ [b]) @ rest"
    by (metis append_Cons append_Nil append_assoc takeWhile_dropWhile_id)
  then show ?thesis
    using \<open>length (takeWhile continues src) < 5\<close>
    by (intro exI [of _ "takeWhile continues src @ [b]"]) simp
qed

lemma read_varint_too_long_extend:
  assumes "read_varint src = Inl e" "e \<noteq> UnexpectedEof"
  shows "read_varint (src @ ys) = Inl e"
proof -
  have "length (takeWhile continues src) \<le> length (takeWhile continues (src @ ys))"
    by (induction src) simp_all
  moreover have "5 \<le> length (takeWhile continues src)" "e = VarIntTooLong 5"
    using assms by (auto simp: read_varint_spec split: if_splits list.splits)
  ultimately show ?thesis by (simp add: read_varint_spec)
qed

lemma read_varint_slice_extend:
  "read_varint_slice src = Inr (Some r) \<Longrightarrow> read_varint_slice (src @ ys) = Inr (Some r)"
  "read_varint_slice src = Inl e \<Longrightarrow> read_varint_slice (src @ ys) = Inl e"
proof -
  assume "read_varint_slice src = Inr (Some r)"
  then obtain v rest where "read_varint src = Inr (v, rest)" "r = (v, length src - length rest)"
    by (auto simp: read_varint_slice_eq split: sum.splits if_splits)
  then show "read_varint_slice (src @ ys) = Inr (Some r)"
    using read_varint_extend [of src v rest ys] by (simp add: read_varint_slice_eq)
next
  assume "read_varint_slice src = Inl e"
  then have "read_varint src = Inl e" "e \<noteq> UnexpectedEof"
    by (auto simp: read_varint_slice_eq split: sum.splits if_splits)
  then show "read_varint_slice (src @ ys) = Inl e"
    using read_varint_too_long_extend [of src e ys] by (simp add: read_varint_slice_eq)
qed

text \<open>
  C22: every value survives the wire: \<open>read_varint\<close> returns what \<open>write_varint\<close> wrote and leaves the
  bytes after it; the encoding takes \<open>varint_len\<close> bytes, between one and five. The same holds of the
  64-bit pair, in at most ten bytes.
\<close>

theorem varint_roundtrip:
  "read_varint (write_varint v @ rest) = Inr (v, rest) \<and>
   length (write_varint v) = varint_len v \<and> 1 \<le> varint_len v \<and> varint_len v \<le> MAX_VARINT_LEN \<and>
   read_varlong (write_varlong w @ rest) = Inr (w, rest) \<and> length (write_varlong w) \<le> MAX_VARLONG_LEN"
  using length_write_varlong_le by (simp add: MAX_VARINT_LEN_def Suc_le_eq)

text \<open>
  C23: the decoder's behaviour on every input. Five bytes that all carry the continuation bit are
  the error \<open>VarIntTooLong\<close>, fewer of them and then the end of the input are \<open>UnexpectedEof\<close>, and
  otherwise the value is the groups up to the first byte without the bit, which the encoder never
  writes in more bytes than were read.
\<close>

theorem read_varint_total:
  "read_varint src =
     (if 5 \<le> length (takeWhile continues src) then Inl (VarIntTooLong MAX_VARINT_LEN)
      else (case dropWhile continues src of
              [] \<Rightarrow> Inl UnexpectedEof
            | b # rest \<Rightarrow> Inr (leb_value 0 0 (takeWhile continues src @ [b]), rest))) \<and>
   (\<forall>v rest. read_varint src = Inr (v, rest) \<longrightarrow> varint_len v \<le> length src - length rest)"
proof -
  have "varint_len v \<le> length src - length rest" if "read_varint src = Inr (v, rest)" for v rest
    using read_leb_minimal [of MAX_VARINT_LEN src v rest] that
    by (simp add: read_varint_def write_varint_def [symmetric])
  then show ?thesis by (auto simp: read_varint_spec MAX_VARINT_LEN_def)
qed

theorem read_varint_total_witness:
  "read_varint [0x80, 0x01, 0xFF] = Inr (0x80, [0xFF]) \<and>
   varint_len 0x80 \<le> length [0x80 :: byte, 0x01, 0xFF] - length [0xFF :: byte]"
proof -
  have "read_varint [0x80, 0x01, 0xFF] = Inr (0x80, [0xFF])"
    using read_varint_total [of "[0x80, 0x01, 0xFF]"]
    by (simp add: continues_def CONTINUATION_BIT_def PAYLOAD_MASK_def)
  with read_varint_total [of "[0x80, 0x01, 0xFF]"] show ?thesis by blast
qed

text \<open>
  The non-consuming decoder agrees with the consuming one: it returns the same value with
  the number of bytes the other consumed, fails exactly when the other reports an overlong
  encoding, and asks for more input exactly when the other runs out of it.
\<close>

theorem read_varint_slice_agrees:
  "(read_varint_slice src = Inr (Some (v, n)) \<longleftrightarrow> n \<le> length src \<and> read_varint src = Inr (v, drop n src)) \<and>
   (read_varint_slice src = Inr None \<longleftrightarrow> read_varint src = Inl UnexpectedEof) \<and>
   (read_varint_slice src = Inl e \<longleftrightarrow> read_varint src = Inl e \<and> e \<noteq> UnexpectedEof)"
proof -
  have "read_varint_slice src = Inr (Some (v, n)) \<longleftrightarrow>
      n \<le> length src \<and> read_varint src = Inr (v, drop n src)"
    by (auto simp: read_varint_slice_eq split: sum.splits if_splits dest: read_varint_shrinks)
  then show ?thesis by (auto simp: read_varint_slice_eq split: sum.splits if_splits)
qed

text \<open>
  A length prefix may arrive byte by byte: on every strict prefix of an encoding, the empty
  one included, the framing decoder is told to wait, and never sees a shorter value or an error.
\<close>

theorem varint_partial_prefix:
  assumes "strict_prefix p (write_varint v)"
  shows "read_varint_slice p = Inr None"
proof -
  obtain e where e: "read_varint p = Inl e"
    using varint.truncated_rejected [OF refl TrueI assms] by blast
  have "length p < varint_len v" using prefix_length_less [OF assms] by simp
  also have "\<dots> \<le> 5" by simp
  finally have "length p < 5" .
  then have "length (takeWhile continues p) < 5"
    using length_takeWhile_le [of continues p] by linarith
  with e have "e = UnexpectedEof"
    by (auto simp: read_varint_spec split: list.splits if_splits)
  with e show ?thesis by (simp add: read_varint_slice_eq)
qed

theorem varint_partial_prefix_witness:
  "write_varint 0x80 = [0x80, 0x01] \<and> read_varint_slice [0x80] = Inr None"
proof -
  have w: "write_varint 0x80 = [0x80, 0x01]"
    by (simp add: write_varint_def write_leb.simps PAYLOAD_MASK_def CONTINUATION_BIT_def)
  then have "read_varint_slice [0x80] = Inr None"
    by (intro varint_partial_prefix [of _ "0x80"]) simp
  with w show ?thesis by simp
qed

end
