(* ===== verification/NbtWrite.thy ===== *)
theory NbtWrite
  imports NbtTag
begin

text \<open>
  The NBT encoder, \<open>crates/nbt/src/write.rs\<close>. A writer is the bytes it appends, or the error it
  returns. The loops over entries and list elements are the mutually recursive
  \<open>write_entries\<close> and \<open>write_items\<close>.
\<close>

definition write_nbt_string :: "rstring \<Rightarrow> nbt_error + byte list" where
  "write_nbt_string s =
     (if length s < 2 ^ 16 then Inr (to_be_bytes 2 (of_nat (length s) :: u16) @ s)
      else Inl (Nbt_StringTooLong (length s)))"

definition array_len :: "usize \<Rightarrow> nbt_error + i32" where
  "array_len n = (if n < 2 ^ 31 then Inr (of_nat n) else Inl (Nbt_ArrayTooLong n))"

function (sequential) write_compound_body :: "nbt_compound \<Rightarrow> usize \<Rightarrow> nbt_error + byte list"
  and write_entries :: "(rstring \<times> nbt_tag) list \<Rightarrow> usize \<Rightarrow> nbt_error + byte list"
  and write_payload :: "nbt_tag \<Rightarrow> usize \<Rightarrow> nbt_error + byte list"
  and write_items :: "nbt_tag list \<Rightarrow> usize \<Rightarrow> nbt_error + byte list" where
  "write_compound_body c depth =
     (if depth > MAX_DEPTH then Inl (DepthExceeded MAX_DEPTH)
      else (case write_entries (entries c) depth of
              Inl e \<Rightarrow> Inl e
            | Inr bs \<Rightarrow> Inr (bs @ [tag_id_code Id_End])))"
| "write_entries [] depth = Inr []"
| "write_entries ((name, tag) # es) depth =
     (case write_nbt_string name of
        Inl e \<Rightarrow> Inl e
      | Inr nbs \<Rightarrow>
          (case write_payload tag depth of
             Inl e \<Rightarrow> Inl e
           | Inr pbs \<Rightarrow>
               (case write_entries es depth of
                  Inl e \<Rightarrow> Inl e
                | Inr rest \<Rightarrow> Inr (tag_id_code (nbt_id tag) # nbs @ pbs @ rest))))"
| "write_payload tag depth =
     (if depth > MAX_DEPTH then Inl (DepthExceeded MAX_DEPTH)
      else (case tag of
        Nbt_Byte v \<Rightarrow> Inr (to_be_bytes 1 v)
      | Nbt_Short v \<Rightarrow> Inr (to_be_bytes 2 v)
      | Nbt_Int v \<Rightarrow> Inr (to_be_bytes 4 v)
      | Nbt_Long v \<Rightarrow> Inr (to_be_bytes 8 v)
      | Nbt_Float v \<Rightarrow> Inr (to_be_bytes 4 v)
      | Nbt_Double v \<Rightarrow> Inr (to_be_bytes 8 v)
      | Nbt_ByteArray v \<Rightarrow>
          (case array_len (length v) of Inl e \<Rightarrow> Inl e | Inr n \<Rightarrow> Inr (to_be_bytes 4 n @ v))
      | Nbt_String v \<Rightarrow> write_nbt_string v
      | Nbt_List l \<Rightarrow>
          (case array_len (length (items l)) of
             Inl e \<Rightarrow> Inl e
           | Inr n \<Rightarrow>
               (case write_items (items l) (depth + 1) of
                  Inl e \<Rightarrow> Inl e
                | Inr bs \<Rightarrow> Inr (tag_id_code (element_type l) # to_be_bytes 4 n @ bs)))
      | Nbt_Compound c \<Rightarrow> write_compound_body c (depth + 1)
      | Nbt_IntArray vs \<Rightarrow>
          (case array_len (length vs) of
             Inl e \<Rightarrow> Inl e
           | Inr n \<Rightarrow> Inr (to_be_bytes 4 n @ concat (map (to_be_bytes 4) vs)))
      | Nbt_LongArray vs \<Rightarrow>
          (case array_len (length vs) of
             Inl e \<Rightarrow> Inl e
           | Inr n \<Rightarrow> Inr (to_be_bytes 4 n @ concat (map (to_be_bytes 8) vs)))))"
| "write_items [] depth = Inr []"
| "write_items (tag # ts) depth =
     (case write_payload tag depth of
        Inl e \<Rightarrow> Inl e
      | Inr pbs \<Rightarrow>
          (case write_items ts depth of
             Inl e \<Rightarrow> Inl e
           | Inr rest \<Rightarrow> Inr (pbs @ rest)))"
  by pat_completeness auto

lemma size_nbt_parts [termination_simp]:
  "size_list (size_prod (\<lambda>_. 0) size) (entries c) < size c"
  "size_list size (items l) < size l"
  by (cases c, simp) (cases l, simp)

termination write_compound_body
  by (relation "measure (\<lambda>x. case x of
        Inl (Inl (c, _)) \<Rightarrow> size c
      | Inl (Inr (es, _)) \<Rightarrow> size_list (size_prod (\<lambda>_. 0) size) es
      | Inr (Inl (t, _)) \<Rightarrow> size t
      | Inr (Inr (ts, _)) \<Rightarrow> size_list size ts)")
     (auto simp: size_nbt_parts intro: less_SucI size_nbt_parts)

declare write_compound_body.simps [simp del] write_payload.simps [simp del]

definition write_network_root :: "nbt_compound \<Rightarrow> nbt_error + byte list" where
  "write_network_root c =
     (case write_compound_body c 1 of
        Inl e \<Rightarrow> Inl e
      | Inr bs \<Rightarrow> Inr (tag_id_code Id_Compound # bs))"

definition write_named_root :: "rstring \<Rightarrow> nbt_compound \<Rightarrow> nbt_error + byte list" where
  "write_named_root name c =
     (case write_nbt_string name of
        Inl e \<Rightarrow> Inl e
      | Inr nbs \<Rightarrow>
          (case write_compound_body c 1 of
             Inl e \<Rightarrow> Inl e
           | Inr bs \<Rightarrow> Inr (tag_id_code Id_Compound # nbs @ bs)))"

end
