(* ===== verification/NbtRead.thy ===== *)
theory NbtRead
  imports NbtWrite "HOL-Library.Multiset"
begin

text \<open>
  The NBT decoder, \<open>crates/nbt/src/read.rs\<close>. The running node total, \<open>nodes: &mut usize\<close> in the
  source, is threaded through the mutually recursive functions; \<open>read_entries\<close> is the loop of
  \<open>read_compound_body\<close> and \<open>read_items\<close> the element loop of \<open>read_payload\<close>. The functions are
  total (the capacities reserved for a vector are the only thing left out): their termination rests on
  the input shrinking, which is proved for the values they return before totality is known.
\<close>

definition read_tag_id :: "(nbt_error, tag_id) reader" where
  "read_tag_id src =
     (case src of
        [] \<Rightarrow> Inl Nbt_UnexpectedEof
      | b # src' \<Rightarrow> (case tag_id_try_from b of Inl e \<Rightarrow> Inl e | Inr i \<Rightarrow> Inr (i, src')))"

definition read_nbt_string :: "(nbt_error, rstring) reader" where
  "read_nbt_string src =
     (if length src < 2 then Inl Nbt_UnexpectedEof
      else let (prefix :: u16, src) = get_be 2 src; len = unat prefix in
        if length src < len then Inl (LengthExceedsInput len (length src))
        else (case from_utf8 (take len src) of
                Inl e \<Rightarrow> Inl (Nbt_InvalidUtf8 e)
              | Inr s \<Rightarrow> Inr (s, drop len src)))"

definition read_length :: "usize \<Rightarrow> (nbt_error, usize) reader" where
  "read_length min_element_size src =
     (if length src < 4 then Inl Nbt_UnexpectedEof
      else let (declared :: i32, src) = get_be 4 src in
        (case usize_try_from_i32 declared of
           None \<Rightarrow> Inl (Nbt_NegativeLength declared)
         | Some len \<Rightarrow>
             (case checked_mul len min_element_size of
                None \<Rightarrow> Inl (LengthExceedsInput len (length src))
              | Some required \<Rightarrow>
                  if required > length src then Inl (LengthExceedsInput required (length src))
                  else Inr (len, src))))"

text \<open>The adjacent pairs of the sorted names, \<open>names.windows(2)\<close>.\<close>

fun first_adjacent_dup :: "rstring list \<Rightarrow> rstring option" where
  "first_adjacent_dup (a # b # names) =
     (if a = b then Some a else first_adjacent_dup (b # names))"
| "first_adjacent_dup _ = None"

definition reject_duplicate_keys :: "nbt_compound \<Rightarrow> nbt_error + unit" where
  "reject_duplicate_keys c =
     (if compound_len c < 2 then Inr ()
      else (case first_adjacent_dup (sort (compound_names c)) of
              Some name \<Rightarrow> Inl (DuplicateKey name)
            | None \<Rightarrow> Inr ()))"

text \<open>\<open>min_element_size\<close> of the list arm.\<close>

fun min_element_size :: "tag_id \<Rightarrow> usize" where
  "min_element_size Id_End = 0"
| "min_element_size Id_Byte = 1"
| "min_element_size Id_Short = 2"
| "min_element_size Id_Int = 4"
| "min_element_size Id_Float = 4"
| "min_element_size Id_Long = 8"
| "min_element_size Id_Double = 8"
| "min_element_size _ = 1"

text \<open>\<open>for _ in 0..len \{ values.push(src.get_i32()) \}\<close>, and its 64-bit twin.\<close>

fun read_be_values :: "nat \<Rightarrow> usize \<Rightarrow> byte list \<Rightarrow> 'a::len word list \<times> byte list" where
  "read_be_values width 0 src = ([], src)"
| "read_be_values width (Suc n) src =
     (let (v, src) = get_be width src; (vs, src) = read_be_values width n src in (v # vs, src))"

text \<open>The \<open>fixed!\<close> macro.\<close>

definition read_fixed ::
    "nat \<Rightarrow> ('a::len word \<Rightarrow> nbt_tag) \<Rightarrow> byte list \<Rightarrow> usize \<Rightarrow> nbt_error + nbt_tag \<times> byte list \<times> usize" where
  "read_fixed width variant src nodes =
     (if length src < width then Inl Nbt_UnexpectedEof
      else let (v, src) = get_be width src in Inr (variant v, src, nodes))"

function (sequential)
      read_compound_body :: "byte list \<Rightarrow> usize \<Rightarrow> usize \<Rightarrow> nbt_error + nbt_compound \<times> byte list \<times> usize"
  and read_entries :: "byte list \<Rightarrow> usize \<Rightarrow> usize \<Rightarrow> nbt_compound \<Rightarrow>
        nbt_error + nbt_compound \<times> byte list \<times> usize"
  and read_payload :: "byte list \<Rightarrow> tag_id \<Rightarrow> usize \<Rightarrow> usize \<Rightarrow> nbt_error + nbt_tag \<times> byte list \<times> usize"
  and read_items :: "usize \<Rightarrow> byte list \<Rightarrow> tag_id \<Rightarrow> usize \<Rightarrow> usize \<Rightarrow>
        nbt_error + nbt_tag list \<times> byte list \<times> usize" where
  "read_compound_body src depth nodes =
     (if depth > MAX_DEPTH then Inl (DepthExceeded MAX_DEPTH)
      else read_entries src depth nodes compound_new)"
| "read_entries src depth nodes compound =
     (case read_tag_id src of
        Inl e \<Rightarrow> Inl e
      | Inr (i, src1) \<Rightarrow>
          if i = Id_End then
            (case reject_duplicate_keys compound of
               Inl e \<Rightarrow> Inl e
             | Inr _ \<Rightarrow> Inr (compound, src1, nodes))
          else
            (case read_nbt_string src1 of
               Inl e \<Rightarrow> Inl e
             | Inr (name, src2) \<Rightarrow>
                 (case read_payload src2 i depth nodes of
                    Inl e \<Rightarrow> Inl e
                  | Inr (v, src3, nodes3) \<Rightarrow>
                      read_entries src3 depth nodes3 (compound_push name v compound))))"
| "read_payload src i depth nodes =
     (if depth > MAX_DEPTH then Inl (DepthExceeded MAX_DEPTH)
      else if nodes + 1 > MAX_TOTAL_NODES then Inl (TooManyNodes MAX_TOTAL_NODES)
      else (case i of
        Id_End \<Rightarrow> Inl (InvalidListElementType Id_End)
      | Id_Byte \<Rightarrow> read_fixed 1 Nbt_Byte src (nodes + 1)
      | Id_Short \<Rightarrow> read_fixed 2 Nbt_Short src (nodes + 1)
      | Id_Int \<Rightarrow> read_fixed 4 Nbt_Int src (nodes + 1)
      | Id_Long \<Rightarrow> read_fixed 8 Nbt_Long src (nodes + 1)
      | Id_Float \<Rightarrow> read_fixed 4 Nbt_Float src (nodes + 1)
      | Id_Double \<Rightarrow> read_fixed 8 Nbt_Double src (nodes + 1)
      | Id_ByteArray \<Rightarrow>
          (case read_length 1 src of
             Inl e \<Rightarrow> Inl e
           | Inr (len, src1) \<Rightarrow> Inr (Nbt_ByteArray (take len src1), drop len src1, nodes + 1))
      | Id_String \<Rightarrow>
          (case read_nbt_string src of
             Inl e \<Rightarrow> Inl e
           | Inr (s, src1) \<Rightarrow> Inr (Nbt_String s, src1, nodes + 1))
      | Id_List \<Rightarrow>
          (case read_tag_id src of
             Inl e \<Rightarrow> Inl e
           | Inr (et, src1) \<Rightarrow>
               (case read_length (min_element_size et) src1 of
                  Inl e \<Rightarrow> Inl e
                | Inr (len, src2) \<Rightarrow>
                    if et = Id_End \<and> len \<noteq> 0 then Inl (InvalidListElementType Id_End)
                    else
                      (case read_items len src2 et (depth + 1) (nodes + 1) of
                         Inl e \<Rightarrow> Inl e
                       | Inr (ts, src3, nodes3) \<Rightarrow>
                           Inr (Nbt_List (list_from_parts et ts), src3, nodes3))))
      | Id_Compound \<Rightarrow>
          (case read_compound_body src (depth + 1) (nodes + 1) of
             Inl e \<Rightarrow> Inl e
           | Inr (c, src1, nodes1) \<Rightarrow> Inr (Nbt_Compound c, src1, nodes1))
      | Id_IntArray \<Rightarrow>
          (case read_length 4 src of
             Inl e \<Rightarrow> Inl e
           | Inr (len, src1) \<Rightarrow>
               (let (vs, src2) = read_be_values 4 len src1 in Inr (Nbt_IntArray vs, src2, nodes + 1)))
      | Id_LongArray \<Rightarrow>
          (case read_length 8 src of
             Inl e \<Rightarrow> Inl e
           | Inr (len, src1) \<Rightarrow>
               (let (vs, src2) = read_be_values 8 len src1 in
                 Inr (Nbt_LongArray vs, src2, nodes + 1)))))"
| "read_items 0 src et depth nodes = Inr ([], src, nodes)"
| "read_items (Suc n) src et depth nodes =
     (case read_payload src et depth nodes of
        Inl e \<Rightarrow> Inl e
      | Inr (t, src1, nodes1) \<Rightarrow>
          (case read_items n src1 et depth nodes1 of
             Inl e \<Rightarrow> Inl e
           | Inr (ts, src2, nodes2) \<Rightarrow> Inr (t # ts, src2, nodes2)))"
  by pat_completeness auto

text \<open>What the primitive readers consume.\<close>

lemma read_tag_id_Inr: "read_tag_id src = Inr (i, src') \<longleftrightarrow> src = tag_id_code i # src'"
  by (cases src) (auto simp: read_tag_id_def tag_id_try_from_Inr split: sum.splits)

lemma read_nbt_string_Inr:
  assumes "read_nbt_string src = Inr (s, src')"
  shows "src = to_be_bytes 2 (of_nat (length s) :: u16) @ s @ src'" "utf8_valid s" "length s < 2 ^ 16"
proof -
  let ?p = "from_be_bytes (take 2 src) :: u16"
  have *: "2 \<le> length src" "unat ?p \<le> length (drop 2 src)" "s = take (unat ?p) (drop 2 src)"
      "src' = drop (unat ?p) (drop 2 src)" "utf8_valid s"
    using assms by (auto simp: read_nbt_string_def Let_def get_be_def from_utf8_eq split: if_splits sum.splits)
  then have len: "length s = unat ?p" by simp
  have "src = take 2 src @ s @ src'"
    unfolding *(3,4) by (simp only: append_take_drop_id)
  then show "src = to_be_bytes 2 (of_nat (length s) :: u16) @ s @ src'"
    using * by (simp add: len)
  show "utf8_valid s" by fact
  show "length s < 2 ^ 16"
    unfolding len using unsigned_less [of ?p, where 'a = nat] by simp
qed

lemma read_length_Inr:
  assumes "read_length m src = Inr (n, src')"
  shows "src = to_be_bytes 4 (of_nat n :: i32) @ src'" "n < 2 ^ 31" "n * m \<le> length src'"
proof -
  let ?p = "from_be_bytes (take 4 src) :: i32"
  have *: "4 \<le> length src" "usize_try_from_i32 ?p = Some n" "src' = drop 4 src" "n * m \<le> length src'"
    using assms by (auto simp: read_length_def get_be_def checked_mul_def split: if_splits option.splits)
  then have "(of_nat n :: i32) = ?p"
    using i32_of_usize_try_from [OF *(2)] by (simp add: i32_of_usize_def)
  with * show "src = to_be_bytes 4 (of_nat n :: i32) @ src'" by simp
  show "n < 2 ^ 31" using *(2) by (rule usize_try_from_i32_bound)
  show "n * m \<le> length src'" by fact
qed

lemma read_fixed_Inr:
  assumes "read_fixed w variant src nodes = Inr (t, src', nodes')"
  shows "w \<le> length src" "t = variant (from_be_bytes (take w src))" "src' = drop w src" "nodes' = nodes"
  using assms by (auto simp: read_fixed_def get_be_def split: if_splits)

lemma read_be_values_snd:
  "snd (read_be_values w n src :: 'a::len word list \<times> byte list) = drop (n * w) src"
  by (induction n arbitrary: src) (simp_all add: get_be_def Let_def case_prod_unfold add.commute)

lemma read_be_values_rest: "read_be_values w n src = (vs, src') \<Longrightarrow> src' = drop (n * w) src"
  using read_be_values_snd [of w n src] by (metis snd_conv)

lemma read_string_shrinks: "read_nbt_string src = Inr (s, src') \<Longrightarrow> length src' < length src"
  by (drule read_nbt_string_Inr) simp

lemma read_length_shrinks: "read_length m src = Inr (n, src') \<Longrightarrow> length src' < length src"
  by (drule read_length_Inr) simp

lemma read_tag_id_shrinks: "read_tag_id src = Inr (i, src') \<Longrightarrow> length src' < length src"
  by (simp add: read_tag_id_Inr)

lemmas reader_shrinks = read_string_shrinks read_length_shrinks read_tag_id_shrinks

text \<open>Where the functions are defined, they return no more input than they were given.\<close>

lemma read_shrinks_partial:
  "read_compound_body_read_entries_read_payload_read_items_dom (Inl (Inl (src, depth, nodes))) \<Longrightarrow>
     read_compound_body src depth nodes = Inr (c, src', nodes') \<Longrightarrow> length src' \<le> length src"
  "read_compound_body_read_entries_read_payload_read_items_dom (Inl (Inr (src, depth, nodes, cmp))) \<Longrightarrow>
     read_entries src depth nodes cmp = Inr (c, src', nodes') \<Longrightarrow> length src' \<le> length src"
  "read_compound_body_read_entries_read_payload_read_items_dom (Inr (Inl (src, i, depth, nodes))) \<Longrightarrow>
     read_payload src i depth nodes = Inr (t, src', nodes') \<Longrightarrow> length src' \<le> length src"
  "read_compound_body_read_entries_read_payload_read_items_dom (Inr (Inr (n, src, i, depth, nodes))) \<Longrightarrow>
     read_items n src i depth nodes = Inr (ts, src', nodes') \<Longrightarrow> length src' \<le> length src"
proof (induction src depth nodes and src depth nodes cmp and src i depth nodes and n src i depth nodes
    arbitrary: c src' nodes' and c src' nodes' and t src' nodes' and ts src' nodes'
    rule: read_compound_body_read_entries_read_payload_read_items.pinduct)
  case (1 src depth nodes)
  then show ?case by (simp add: read_compound_body.psimps split: if_splits)
next
  case (2 src depth nodes cmp)
  then show ?case
    by (fastforce simp: read_entries.psimps split: if_splits sum.splits dest: reader_shrinks)
next
  case (3 src i depth nodes)
  note step = read_payload.psimps [OF "3.hyps"]
  note p = "3.prems" [unfolded step]
  from p have d: "\<not> MAX_DEPTH < depth" and n: "\<not> MAX_TOTAL_NODES < nodes + 1"
    by (auto split: if_splits)
  show ?case
  proof (cases i)
    case Id_List
    with p d n obtain et src1 len src2 ts where
        *: "read_tag_id src = Inr (et, src1)" "read_length (min_element_size et) src1 = Inr (len, src2)"
          "read_items len src2 et (depth + 1) (nodes + 1) = Inr (ts, src', nodes')"
          "\<not> (et = Id_End \<and> len \<noteq> 0)"
      by (auto split: sum.splits if_splits prod.splits)
    then have "length src' \<le> length src2"
      using "3.IH"(1) [OF d n Id_List *(1) refl *(2) refl *(4) *(3)] by simp
    with * show ?thesis by (auto dest!: reader_shrinks)
  next
    case Id_Compound
    with p d n obtain c where "read_compound_body src (depth + 1) (nodes + 1) = Inr (c, src', nodes')"
      by (auto split: sum.splits)
    then show ?thesis
      using "3.IH"(2) [OF d n Id_Compound] by simp
  qed (use p d n in \<open>auto split: sum.splits prod.splits
      dest!: reader_shrinks read_fixed_Inr(3) read_be_values_rest\<close>)
next
  case (4 src i depth nodes)
  then show ?case by (simp add: read_items.psimps)
next
  case (5 n src i depth nodes)
  then show ?case by (fastforce simp: read_items.psimps split: sum.splits)
qed


termination read_compound_body
  by (relation "measures
     [\<lambda>x. case x of
        Inl (Inl (src, _, _)) \<Rightarrow> length src
      | Inl (Inr (src, _, _, _)) \<Rightarrow> length src
      | Inr (Inl (src, _, _, _)) \<Rightarrow> length src
      | Inr (Inr (_, src, _, _, _)) \<Rightarrow> length src,
      \<lambda>x. case x of
        Inl (Inl _) \<Rightarrow> 1
      | Inl (Inr _) \<Rightarrow> 0
      | Inr (Inl _) \<Rightarrow> 2
      | Inr (Inr (n, _, _, _, _)) \<Rightarrow> 3 + n]")
     (fastforce dest: reader_shrinks read_shrinks_partial)+

declare read_compound_body.simps [simp del] read_entries.simps [simp del] read_payload.simps [simp del]

definition read_network_root :: "(nbt_error, nbt_compound) reader" where
  "read_network_root src =
     (case read_tag_id src of
        Inl e \<Rightarrow> Inl e
      | Inr (i, src1) \<Rightarrow>
          if i \<noteq> Id_Compound then Inl (RootNotCompound i)
          else (case read_compound_body src1 1 0 of
                  Inl e \<Rightarrow> Inl e
                | Inr (c, src2, _) \<Rightarrow> Inr (c, src2)))"

definition read_named_root :: "(nbt_error, rstring \<times> nbt_compound) reader" where
  "read_named_root src =
     (case read_tag_id src of
        Inl e \<Rightarrow> Inl e
      | Inr (i, src1) \<Rightarrow>
          if i \<noteq> Id_Compound then Inl (RootNotCompound i)
          else (case read_nbt_string src1 of
                  Inl e \<Rightarrow> Inl e
                | Inr (name, src2) \<Rightarrow>
                    (case read_compound_body src2 1 0 of
                       Inl e \<Rightarrow> Inl e
                     | Inr (c, src3, _) \<Rightarrow> Inr ((name, c), src3))))"

definition read_optional_network_root :: "(nbt_error, nbt_compound option) reader" where
  "read_optional_network_root src =
     (case read_tag_id src of
        Inl e \<Rightarrow> Inl e
      | Inr (i, src1) \<Rightarrow>
          (case i of
             Id_End \<Rightarrow> Inr (None, src1)
           | Id_Compound \<Rightarrow>
               (case read_compound_body src1 1 0 of
                  Inl e \<Rightarrow> Inl e
                | Inr (c, src2, _) \<Rightarrow> Inr (Some c, src2))
           | other \<Rightarrow> Inl (RootNotCompound other)))"

subsection \<open>Duplicate names\<close>

lemma first_adjacent_dup_sorted:
  "sorted xs \<Longrightarrow> first_adjacent_dup xs = None \<longleftrightarrow> distinct xs"
  by (induction xs rule: first_adjacent_dup.induct) (auto dest: antisym)

lemma first_adjacent_dup_mem: "first_adjacent_dup xs = Some x \<Longrightarrow> 1 < count (mset xs) x"
proof (induction xs rule: first_adjacent_dup.induct)
  case (1 a b xs)
  then show ?case by (cases "a = b") auto
qed simp_all

lemma reject_duplicate_keys_ok:
  "reject_duplicate_keys c = Inr u \<longleftrightarrow> distinct (compound_names c)"
proof (cases "compound_len c < 2")
  case True
  then have "distinct (compound_names c)"
    by (cases "compound_names c" rule: first_adjacent_dup.cases)
       (auto simp: compound_len_def compound_names_def compound_iter_def)
  with True show ?thesis by (simp add: reject_duplicate_keys_def)
next
  case False
  have "first_adjacent_dup (sort (compound_names c)) = None \<longleftrightarrow> distinct (compound_names c)"
    using first_adjacent_dup_sorted [of "sort (compound_names c)"] by simp
  with False show ?thesis
    by (auto simp: reject_duplicate_keys_def split: option.splits)
qed

lemma reject_duplicate_keys_err:
  assumes "reject_duplicate_keys c = Inl e"
  obtains name where "e = DuplicateKey name" "1 < count (mset (compound_names c)) name"
proof -
  obtain name where "e = DuplicateKey name"
      "first_adjacent_dup (sort (compound_names c)) = Some name"
    using assms by (auto simp: reject_duplicate_keys_def split: if_splits option.splits)
  moreover from this(2) have "1 < count (mset (sort (compound_names c))) name"
    by (rule first_adjacent_dup_mem)
  ultimately show thesis
    by (intro that) (simp_all)
qed

end
