(* ===== verification/NbtRoundtrip.thy ===== *)
theory NbtRoundtrip
  imports NbtRead WireCodec
begin

text \<open>
  The encoder and the decoder are inverse to each other: what is written is read back, and what is
  read is, byte for byte, what the encoder would have written. From the second, every decoded
  document satisfies the document invariant and both resource bounds.
\<close>

subsection \<open>Reading what was written\<close>

lemma read_tag_id_code [simp, wire_simps]: "read_tag_id (tag_id_code i # rest) = Inr (i, rest)"
  by (simp add: read_tag_id_def)

lemma read_nbt_string_write:
  assumes "write_nbt_string s = Inr bs" "utf8_valid s"
  shows "read_nbt_string (bs @ rest) = Inr (s, rest)"
proof -
  have len: "length s < 2 ^ 16" and bs: "bs = to_be_bytes 2 (of_nat (length s) :: u16) @ s"
    using assms(1) by (auto simp: write_nbt_string_def split: if_splits)
  have "unat (of_nat (length s) :: u16) = length s"
    using len by (simp add: unat_of_nat)
  then show ?thesis
    using assms(2) by (simp add: read_nbt_string_def bs Let_def)
qed

lemma read_length_write:
  assumes "array_len n = Inr v" "n * m \<le> length rest" "m \<le> 8"
  shows "read_length m (to_be_bytes 4 v @ rest) = Inr (n, rest)"
proof -
  have n: "n < 2 ^ 31" "v = i32_of_usize n"
    using assms(1) by (auto simp: array_len_def i32_of_usize_def split: if_splits)
  have "n * m \<le> 2 ^ 31 * 8"
    using n(1) assms(3) by (intro mult_le_mono) simp_all
  then have "checked_mul n m = Some (n * m)"
    by (simp add: checked_mul_def USIZE_MAX_def)
  then show ?thesis
    using n assms(2) by (simp add: read_length_def usize_try_from_of_usize)
qed

lemma read_be_values_write:
  fixes vs :: "'a::len word list"
  assumes "LENGTH('a) = 8 * w"
  shows "read_be_values w (length vs) (concat (map (to_be_bytes w) vs) @ rest) = (vs, rest)"
  using assms by (induction vs) simp_all

lemma length_concat_be [simp]: "length (concat (map (to_be_bytes w) vs)) = length vs * w"
  by (induction vs) simp_all

text \<open>Every element takes at least the bytes the decoder demands for its type.\<close>

lemma write_payload_min:
  assumes "write_payload t depth = Inr bs"
  shows "min_element_size (nbt_id t) \<le> length bs"
  using assms
  by (cases t) (auto simp: write_payload.simps write_compound_body.simps write_nbt_string_def
      split: if_splits sum.splits)

lemma write_items_min:
  assumes "write_items ts depth = Inr bs" "list_all (\<lambda>t. nbt_id t = et) ts"
  shows "length ts * min_element_size et \<le> length bs"
  using assms
  by (induction ts arbitrary: bs) (fastforce split: sum.splits dest: write_payload_min)+

lemma min_element_size_le [simp]: "min_element_size et \<le> 8"
  by (cases et) simp_all

text \<open>The inductive steps: one entry of a compound, a list, and the tags with no tag inside.\<close>

lemma read_entries_end:
  assumes "distinct (map fst (entries cmp))"
  shows "read_entries (0 # rest) depth n cmp = Inr (cmp, rest, n)"
proof -
  have "reject_duplicate_keys cmp = Inr ()"
    using assms by (simp add: reject_duplicate_keys_ok compound_names_def compound_iter_def)
  moreover have "read_tag_id (0 # rest) = Inr (Id_End, rest)"
    using read_tag_id_code [of Id_End rest] by simp
  ultimately show ?thesis by (simp add: read_entries.simps)
qed

lemma read_entries_step:
  assumes "write_nbt_string name = Inr nbs" "utf8_valid name"
    and "read_payload (pbs @ src) (nbt_id tag) depth n = Inr (tag, src, n')"
  shows "read_entries (tag_id_code (nbt_id tag) # nbs @ pbs @ src) depth n cmp =
      read_entries src depth n' (compound_push name tag cmp)"
  using assms(3) by (simp add: read_entries.simps [of "_ # _"] read_nbt_string_write [OF assms(1,2)])

lemma read_payload_list:
  assumes "array_len (length ts) = Inr v" "write_items ts (depth + 1) = Inr ibs"
    and et: "list_all (\<lambda>t. nbt_id t = et) ts"
    and "read_items (length ts) (ibs @ rest) et (depth + 1) (n + 1) = Inr (ts, rest, n')"
    and "depth \<le> MAX_DEPTH" "n + 1 \<le> MAX_TOTAL_NODES"
  shows "read_payload ((tag_id_code et # to_be_bytes 4 v @ ibs) @ rest) Id_List depth n =
      Inr (Nbt_List (NbtList et ts), rest, n')"
proof -
  have "read_length (min_element_size et) (to_be_bytes 4 v @ ibs @ rest) = Inr (length ts, ibs @ rest)"
    using write_items_min [OF assms(2) et] by (intro read_length_write [OF assms(1)]) auto
  moreover have "\<not> (et = Id_End \<and> length ts \<noteq> 0)"
    using et by (cases ts) auto
  ultimately show ?thesis
    using assms(4-) by (simp add: read_payload.simps list_from_parts_def)
qed

lemma read_payload_leaf:
  assumes "write_payload t depth = Inr bs" "wf_tag t" "n + 1 \<le> MAX_TOTAL_NODES"
    and "nbt_id t \<noteq> Id_List" "nbt_id t \<noteq> Id_Compound"
  shows "read_payload (bs @ rest) (nbt_id t) depth n = Inr (t, rest, n + 1)"
  using assms
  by (cases t) (auto simp: write_payload.simps read_payload.simps read_fixed_def read_nbt_string_write
      read_length_write read_be_values_write split: sum.splits if_splits)

lemma tag_nodes_pos: "1 \<le> tag_nodes t"
  by (cases t rule: tag_nodes.cases) auto

lemma tag_nodes_leaf: "nbt_id t \<noteq> Id_List \<Longrightarrow> nbt_id t \<noteq> Id_Compound \<Longrightarrow> tag_nodes t = 1"
  by (cases t) auto

text \<open>One payload, given that what it contains reads back.\<close>

lemma read_written_payload:
  assumes w: "write_payload t depth = Inr bs" "wf_tag t" "n + tag_nodes t \<le> MAX_TOTAL_NODES"
    and items: "\<And>et ts v ibs k rest. \<not> MAX_DEPTH < depth \<Longrightarrow> t = Nbt_List (NbtList et ts) \<Longrightarrow>
      array_len (length ts) = Inr v \<Longrightarrow> write_items ts (depth + 1) = Inr ibs \<Longrightarrow>
      k + sum_list (map tag_nodes ts) \<le> MAX_TOTAL_NODES \<Longrightarrow>
      read_items (length ts) (ibs @ rest) et (depth + 1) k = Inr (ts, rest, k + sum_list (map tag_nodes ts))"
    and body: "\<And>c cbs k rest. \<not> MAX_DEPTH < depth \<Longrightarrow> t = Nbt_Compound c \<Longrightarrow>
      write_compound_body c (depth + 1) = Inr cbs \<Longrightarrow> k + compound_nodes c \<le> MAX_TOTAL_NODES \<Longrightarrow>
      read_compound_body (cbs @ rest) (depth + 1) k = Inr (c, rest, k + compound_nodes c)"
  shows "read_payload (bs @ rest) (nbt_id t) depth n = Inr (t, rest, n + tag_nodes t)"
proof -
  note p = w(1) [unfolded write_payload.simps]
  from p have d: "\<not> MAX_DEPTH < depth" by (auto split: if_splits)
  have n: "n + 1 \<le> MAX_TOTAL_NODES" using tag_nodes_pos [of t] w(3) by simp
  show ?thesis
  proof (cases t rule: nbt_tag_shape)
    case (list et ts)
    from p d obtain v ibs where
        l: "array_len (length ts) = Inr v" "write_items ts (depth + 1) = Inr ibs"
          "bs = tag_id_code et # to_be_bytes 4 v @ ibs"
      by (auto simp: list split: sum.splits)
    with items [OF d list l(1,2), of "n + 1" rest] d n w(2,3) show ?thesis
      by (simp add: list read_payload_list del: append_Cons append_assoc)
  next
    case (compound c)
    with p d body [OF d compound, of bs "n + 1" rest] n w(3) show ?thesis
      by (simp add: read_payload.simps)
  next
    case leaf
    then show ?thesis using w n by (simp add: read_payload_leaf tag_nodes_leaf)
  qed
qed

lemma read_written:
  "write_compound_body c depth = Inr bs \<Longrightarrow> wf_compound c \<Longrightarrow>
     n + compound_nodes c \<le> MAX_TOTAL_NODES \<Longrightarrow>
     read_compound_body (bs @ rest) depth n = Inr (c, rest, n + compound_nodes c)"
  "write_entries es depth = Inr bs \<Longrightarrow> list_all (\<lambda>(k, t). utf8_valid k \<and> wf_tag t) es \<Longrightarrow>
     distinct (map fst (entries cmp @ es)) \<Longrightarrow>
     n + compound_nodes (NbtCompound es) \<le> MAX_TOTAL_NODES \<Longrightarrow>
     read_entries (bs @ 0 # rest) depth n cmp =
       Inr (NbtCompound (entries cmp @ es), rest, n + compound_nodes (NbtCompound es))"
  "write_payload t depth = Inr bs \<Longrightarrow> wf_tag t \<Longrightarrow> n + tag_nodes t \<le> MAX_TOTAL_NODES \<Longrightarrow>
     read_payload (bs @ rest) (nbt_id t) depth n = Inr (t, rest, n + tag_nodes t)"
  "write_items ts depth = Inr bs \<Longrightarrow> list_all wf_tag ts \<Longrightarrow> list_all (\<lambda>t. nbt_id t = et) ts \<Longrightarrow>
     n + sum_list (map tag_nodes ts) \<le> MAX_TOTAL_NODES \<Longrightarrow>
     read_items (length ts) (bs @ rest) et depth n =
       Inr (ts, rest, n + sum_list (map tag_nodes ts))"
proof (induction c depth and es depth and t depth and ts depth
    arbitrary: bs n rest and bs n rest cmp and bs n rest and bs n rest et
    rule: write_compound_body_write_entries_write_payload_write_items.induct)
  case (1 c depth)
  obtain es where c: "c = NbtCompound es" by (cases c)
  with "1.prems" obtain bs' where "\<not> MAX_DEPTH < depth" "write_entries es depth = Inr bs'" "bs = bs' @ [0]"
    by (auto simp: write_compound_body.simps split: if_splits sum.splits)
  with "1.IH" [of bs' "NbtCompound []" n rest] "1.prems"(2,3) show ?case
    by (simp add: c read_compound_body.simps compound_new_def)
next
  case (2 depth)
  then show ?case by (cases cmp) (simp add: read_entries_end)
next
  case (3 name tag es depth)
  from "3.prems"(1) obtain nbs pbs rbs where
      w: "write_nbt_string name = Inr nbs" "write_payload tag depth = Inr pbs"
        "write_entries es depth = Inr rbs" "bs = tag_id_code (nbt_id tag) # nbs @ pbs @ rbs"
    by (auto split: sum.splits)
  have "read_payload (pbs @ rbs @ 0 # rest) (nbt_id tag) depth n =
      Inr (tag, rbs @ 0 # rest, n + tag_nodes tag)"
    using "3.IH"(1) [OF w(1,2)] "3.prems" by simp
  with w(1) "3.prems"(2)
  have "read_entries (bs @ 0 # rest) depth n cmp =
      read_entries (rbs @ 0 # rest) depth (n + tag_nodes tag) (compound_push name tag cmp)"
    by (simp add: w(4) read_entries_step)
  with "3.IH"(2) [OF w(1,2,3), of "compound_push name tag cmp" "n + tag_nodes tag" rest] "3.prems"
  show ?case by (simp add: compound_push_def)
next
  case (4 tag depth)
  show ?case
  proof (rule read_written_payload [OF "4.prems"])
    show "read_items (length ts) (ibs @ rest) et (depth + 1) k = Inr (ts, rest, k + sum_list (map tag_nodes ts))"
      if "\<not> MAX_DEPTH < depth" "tag = Nbt_List (NbtList et ts)" "array_len (length ts) = Inr v"
        "write_items ts (depth + 1) = Inr ibs" "k + sum_list (map tag_nodes ts) \<le> MAX_TOTAL_NODES"
      for et ts v ibs k rest
      using "4.IH"(1) [OF that(1,2)] that "4.prems"(2) by simp
  qed (use "4.IH"(2) "4.prems"(2) in auto)
next
  case (5 depth)
  then show ?case by simp
next
  case (6 tag ts depth)
  from "6.prems"(1) obtain pbs rbs where
      w: "write_payload tag depth = Inr pbs" "write_items ts depth = Inr rbs" "bs = pbs @ rbs"
    by (auto split: sum.splits)
  have "read_payload (pbs @ rbs @ rest) et depth n = Inr (tag, rbs @ rest, n + tag_nodes tag)"
    using "6.IH"(1) [OF w(1), of n "rbs @ rest"] "6.prems" by simp
  with "6.IH"(2) [OF w(1,2), of et "n + tag_nodes tag" rest] "6.prems" show ?case
    by (simp add: w(3))
qed

subsection \<open>Writing what was read\<close>

lemma write_read_nbt_string:
  assumes "read_nbt_string src = Inr (s, rest)"
  obtains bs where "write_nbt_string s = Inr bs" "src = bs @ rest" "utf8_valid s"
  using read_nbt_string_Inr [OF assms] by (auto simp: write_nbt_string_def)

lemma write_read_length:
  assumes "read_length m src = Inr (k, src')"
  obtains v where "array_len k = Inr v" "src = to_be_bytes 4 v @ src'" "k * m \<le> length src'"
  using read_length_Inr [OF assms] by (auto simp: array_len_def)

lemma write_read_be_values:
  fixes vs :: "'a::len word list"
  assumes "read_be_values w k src = (vs, rest)" "k * w \<le> length src" "LENGTH('a) = 8 * w"
  shows "src = concat (map (to_be_bytes w) vs) @ rest \<and> length vs = k"
  using assms
proof (induction k arbitrary: src vs)
  case (Suc k)
  then obtain v vs' where *: "get_be w src = (v, drop w src)" "read_be_values w k (drop w src) = (vs', rest)"
      "vs = v # vs'"
    by (auto simp: get_be_def Let_def split: prod.splits)
  with Suc.IH [OF *(2)] Suc.prems(2,3) get_be_inverse [OF *(1)] show ?case by simp
qed simp

lemma write_read_fixed:
  fixes variant :: "'a::len word \<Rightarrow> nbt_tag"
  assumes "read_fixed w variant src n = Inr (t, rest, n')" "LENGTH('a) = 8 * w"
  obtains v where "t = variant v" "src = to_be_bytes w v @ rest" "n' = n"
proof -
  note r = read_fixed_Inr [OF assms(1)]
  show thesis
  proof (rule that)
    show "t = variant (from_be_bytes (take w src))" by (rule r(2))
    have "to_be_bytes w (from_be_bytes (take w src) :: 'a word) = take w src"
      using r(1) assms(2) by (intro to_from_be_bytes) simp_all
    then show "src = to_be_bytes w (from_be_bytes (take w src) :: 'a word) @ rest"
      by (simp only: r(3) append_take_drop_id)
    show "n' = n" by (rule r(4))
  qed
qed

lemma write_read_leaf:
  assumes "read_payload src i depth n = Inr (t, rest, n')" "i \<noteq> Id_List" "i \<noteq> Id_Compound"
  shows "\<exists>bs. write_payload t depth = Inr bs \<and> src = bs @ rest \<and> nbt_id t = i \<and> wf_tag t \<and>
      n' = n + 1 \<and> n' \<le> MAX_TOTAL_NODES"
proof -
  note p = assms(1) [unfolded read_payload.simps]
  from p have d: "\<not> MAX_DEPTH < depth" and n: "n + 1 \<le> MAX_TOTAL_NODES"
    by (auto split: if_splits)
  show ?thesis
  proof (cases i)
    case Id_ByteArray
    with p d n show ?thesis
      by (auto simp: write_payload.simps split: sum.splits elim!: write_read_length)
  next
    case Id_IntArray
    with p d n show ?thesis
      by (auto simp: write_payload.simps split: sum.splits prod.splits
          elim!: write_read_length dest!: write_read_be_values)
  next
    case Id_LongArray
    with p d n show ?thesis
      by (auto simp: write_payload.simps split: sum.splits prod.splits
          elim!: write_read_length dest!: write_read_be_values)
  qed (use p d n assms(2,3) in \<open>auto simp: write_payload.simps split: sum.splits
      elim!: write_read_nbt_string write_read_fixed\<close>)
qed

text \<open>
  What reading the entries of a compound has established: the entries it added to those it began with
  were read from their own encoding, within the budget.
\<close>

definition entries_written :: "nbt_compound \<Rightarrow> usize \<Rightarrow> byte list \<Rightarrow> usize \<Rightarrow> nbt_compound \<Rightarrow> byte list \<Rightarrow>
    usize \<Rightarrow> bool" where
  "entries_written cmp depth src n c rest n' \<longleftrightarrow>
     (\<exists>es bs. c = NbtCompound (entries cmp @ es) \<and> write_entries es depth = Inr bs \<and>
       src = bs @ tag_id_code Id_End # rest \<and> distinct (map fst (entries cmp @ es)) \<and>
       list_all (\<lambda>(k, t). utf8_valid k \<and> wf_tag t) es \<and>
       n' = n + compound_nodes (NbtCompound es) \<and> n' \<le> MAX_TOTAL_NODES)"

text \<open>One entry, given that its payload and the entries after it were read from what is written.\<close>

lemma written_read_entry:
  assumes i: "read_tag_id src = Inr (i, src1)" and name: "read_nbt_string src1 = Inr (name, src2)"
    and v: "\<exists>pbs. write_payload v depth = Inr pbs \<and> src2 = pbs @ src3 \<and> nbt_id v = i \<and> wf_tag v \<and>
      n3 = n + tag_nodes v \<and> n3 \<le> MAX_TOTAL_NODES"
    and es: "entries_written (compound_push name v cmp) depth src3 n3 c rest n'"
  shows "entries_written cmp depth src n c rest n'"
proof -
  from name obtain nbs where "write_nbt_string name = Inr nbs" "src1 = nbs @ src2" "utf8_valid name"
    by (rule write_read_nbt_string)
  moreover from v obtain pbs where "write_payload v depth = Inr pbs" "src2 = pbs @ src3" "nbt_id v = i"
      "wf_tag v" "n3 = n + tag_nodes v" "n3 \<le> MAX_TOTAL_NODES" by blast
  moreover from es obtain es bs where "c = NbtCompound (entries (compound_push name v cmp) @ es)"
      "write_entries es depth = Inr bs" "src3 = bs @ tag_id_code Id_End # rest"
      "distinct (map fst (entries (compound_push name v cmp) @ es))"
      "list_all (\<lambda>(k, t). utf8_valid k \<and> wf_tag t) es"
      "n' = n3 + compound_nodes (NbtCompound es)" "n' \<le> MAX_TOTAL_NODES"
    unfolding entries_written_def by blast
  ultimately show ?thesis
    using i unfolding entries_written_def
    by (intro exI [of _ "(name, v) # es"] exI [of _ "tag_id_code i # nbs @ pbs @ bs"])
       (auto simp: compound_push_def read_tag_id_Inr)
qed

lemma written_read:
  "read_compound_body src depth n = Inr (c, rest, n') \<Longrightarrow> n \<le> MAX_TOTAL_NODES \<Longrightarrow>
     \<exists>bs. write_compound_body c depth = Inr bs \<and> src = bs @ rest \<and> wf_compound c \<and>
       n' = n + compound_nodes c \<and> n' \<le> MAX_TOTAL_NODES"
  "read_entries src depth n cmp = Inr (c, rest, n') \<Longrightarrow> n \<le> MAX_TOTAL_NODES \<Longrightarrow>
     entries_written cmp depth src n c rest n'"
  "read_payload src i depth n = Inr (t, rest, n') \<Longrightarrow>
     \<exists>bs. write_payload t depth = Inr bs \<and> src = bs @ rest \<and> nbt_id t = i \<and> wf_tag t \<and>
       n' = n + tag_nodes t \<and> n' \<le> MAX_TOTAL_NODES"
  "read_items k src i depth n = Inr (ts, rest, n') \<Longrightarrow> n \<le> MAX_TOTAL_NODES \<Longrightarrow>
     \<exists>bs. write_items ts depth = Inr bs \<and> src = bs @ rest \<and> length ts = k \<and>
       list_all (\<lambda>t. nbt_id t = i) ts \<and> list_all wf_tag ts \<and>
       n' = n + sum_list (map tag_nodes ts) \<and> n' \<le> MAX_TOTAL_NODES"
proof (induction src depth n and src depth n cmp and src i depth n and k src i depth n
    arbitrary: c rest n' and c rest n' and t rest n' and ts rest n'
    rule: read_compound_body_read_entries_read_payload_read_items.induct)
  case (1 src depth n)
  from "1.prems" have d: "\<not> MAX_DEPTH < depth" and
      "read_entries src depth n compound_new = Inr (c, rest, n')"
    by (auto simp: read_compound_body.simps split: if_splits)
  with "1.IH" [OF d this(2) "1.prems"(2)] show ?case
    by (auto simp: write_compound_body.simps compound_new_def entries_written_def)
next
  case (2 src depth n cmp)
  from "2.prems"(1) obtain i src1 where i: "read_tag_id src = Inr (i, src1)"
    by (auto simp: read_entries.simps [of src] split: sum.splits)
  show ?case
  proof (cases "i = Id_End")
    case True
    with "2.prems" i show ?thesis
      by (cases cmp) (auto simp: read_entries.simps [of src] reject_duplicate_keys_ok compound_names_def
          compound_iter_def read_tag_id_Inr entries_written_def split: sum.splits)
  next
    case False
    with "2.prems"(1) i obtain name src2 v src3 n3 where
        r: "read_nbt_string src1 = Inr (name, src2)" "read_payload src2 i depth n = Inr (v, src3, n3)"
          "read_entries src3 depth n3 (compound_push name v cmp) = Inr (c, rest, n')"
      by (auto simp: read_entries.simps [of src] split: sum.splits)
    note p = "2.IH"(1) [OF i refl False r(1) refl r(2)]
    have "n3 \<le> MAX_TOTAL_NODES" using p by blast
    note e = "2.IH"(2) [OF i refl False r(1) refl r(2) refl refl r(3) this]
    show ?thesis by (rule written_read_entry [OF i r(1) p e])
  qed
next
  case (3 src i depth n)
  note p = "3.prems" [unfolded read_payload.simps]
  from p have d: "\<not> MAX_DEPTH < depth" and n: "\<not> MAX_TOTAL_NODES < n + 1"
    by (auto split: if_splits)
  consider "i = Id_List" | "i = Id_Compound" | "i \<noteq> Id_List" "i \<noteq> Id_Compound" by blast
  then show ?case
  proof cases
    case 1
    with p d n obtain et src1 len src2 ts where
        *: "read_tag_id src = Inr (et, src1)" "read_length (min_element_size et) src1 = Inr (len, src2)"
          "\<not> (et = Id_End \<and> len \<noteq> 0)" "t = Nbt_List (NbtList et ts)"
          "read_items len src2 et (depth + 1) (n + 1) = Inr (ts, rest, n')"
      by (auto simp: list_from_parts_def split: sum.splits if_splits prod.splits)
    with "3.IH"(1) [OF d n 1 *(1) refl *(2) refl *(3) *(5)] d n 1 show ?thesis
      by (auto simp: write_payload.simps read_tag_id_Inr elim!: write_read_length)
  next
    case 2
    with p d n obtain c where "t = Nbt_Compound c"
        "read_compound_body src (depth + 1) (n + 1) = Inr (c, rest, n')"
      by (auto split: sum.splits)
    with "3.IH"(2) [OF d n 2] d n 2 show ?thesis
      by (auto simp: write_payload.simps)
  next
    case 3
    from write_read_leaf [OF "3.prems" this] 3 show ?thesis
      by (auto simp: tag_nodes_leaf)
  qed
next
  case (4 src i depth n)
  then show ?case by simp
next
  case (5 k src i depth n)
  then show ?case by (fastforce split: sum.splits)
qed

subsection \<open>What the encoder accepts\<close>

text \<open>The length fields: 16 bits for names and strings, 31 for arrays and lists.\<close>

fun tag_fits :: "nbt_tag \<Rightarrow> bool"
  and compound_fits :: "nbt_compound \<Rightarrow> bool" where
  "tag_fits (Nbt_ByteArray v) = (length v < 2 ^ 31)"
| "tag_fits (Nbt_String s) = (length s < 2 ^ 16)"
| "tag_fits (Nbt_List (NbtList et ts)) = (length ts < 2 ^ 31 \<and> list_all tag_fits ts)"
| "tag_fits (Nbt_Compound c) = compound_fits c"
| "tag_fits (Nbt_IntArray vs) = (length vs < 2 ^ 31)"
| "tag_fits (Nbt_LongArray vs) = (length vs < 2 ^ 31)"
| "tag_fits _ = True"
| "compound_fits (NbtCompound es) = list_all (\<lambda>(k, t). length k < 2 ^ 16 \<and> tag_fits t) es"

lemma fold_max_le: "fold max xs a \<le> m \<longleftrightarrow> a \<le> m \<and> (\<forall>x \<in> set xs. x \<le> m)" for m :: nat
  by (induction xs arbitrary: a) auto

lemma fold_max_add_le:
  "d + fold max xs 0 \<le> m \<longleftrightarrow> d \<le> m \<and> (\<forall>x \<in> set xs. d + x \<le> m)" for m :: nat
  using fold_max_le [of xs 0 "m - d"] by (cases "d \<le> m") (auto simp: le_diff_conv2 add.commute)

lemma write_nbt_string_ok: "(\<exists>bs. write_nbt_string s = Inr bs) \<longleftrightarrow> length s < 2 ^ 16"
  by (auto simp: write_nbt_string_def)

lemma array_len_ok: "(\<exists>v. array_len n = Inr v) \<longleftrightarrow> n < 2 ^ 31"
  by (auto simp: array_len_def)

lemma write_payload_ok:
  assumes items: "\<And>et ts v. \<not> MAX_DEPTH < depth \<Longrightarrow> t = Nbt_List (NbtList et ts) \<Longrightarrow>
      array_len (length ts) = Inr v \<Longrightarrow> (\<exists>bs. write_items ts (depth + 1) = Inr bs) \<longleftrightarrow>
        list_all (\<lambda>t. tag_fits t \<and> depth + 1 + tag_nesting t \<le> MAX_DEPTH) ts"
    and body: "\<And>c. \<not> MAX_DEPTH < depth \<Longrightarrow> t = Nbt_Compound c \<Longrightarrow>
      (\<exists>bs. write_compound_body c (depth + 1) = Inr bs) \<longleftrightarrow>
        compound_fits c \<and> depth + 1 + compound_nesting c \<le> Suc MAX_DEPTH"
  shows "(\<exists>bs. write_payload t depth = Inr bs) \<longleftrightarrow> tag_fits t \<and> depth + tag_nesting t \<le> MAX_DEPTH"
proof (cases "MAX_DEPTH < depth")
  case True
  then show ?thesis by (simp add: write_payload.simps)
next
  case False
  show ?thesis
  proof (cases t rule: nbt_tag_shape)
    case (list et ts)
    have "(\<exists>bs. write_payload t depth = Inr bs) \<longleftrightarrow>
        (\<exists>v. array_len (length ts) = Inr v) \<and> (\<exists>bs. write_items ts (depth + 1) = Inr bs)"
      using False by (auto simp: write_payload.simps list split: sum.splits)
    moreover have "(\<exists>v. array_len (length ts) = Inr v) \<Longrightarrow>
        (\<exists>bs. write_items ts (depth + 1) = Inr bs) \<longleftrightarrow>
          list_all (\<lambda>t. tag_fits t \<and> depth + 1 + tag_nesting t \<le> MAX_DEPTH) ts"
      using items [OF False list] by auto
    ultimately show ?thesis
      using False fold_max_add_le [of "Suc depth" "map tag_nesting ts" MAX_DEPTH]
      by (cases ts) (auto simp: list array_len_ok list_all_iff)
  next
    case (compound c)
    then show ?thesis
      using False body [OF False compound] by (simp add: write_payload.simps)
  next
    case leaf
    then show ?thesis
      using False by (cases t) (auto simp: write_payload.simps write_nbt_string_ok array_len_def
          split: sum.splits)
  qed
qed

lemma write_ok:
  "(\<exists>bs. write_compound_body c depth = Inr bs) \<longleftrightarrow>
     compound_fits c \<and> depth + compound_nesting c \<le> Suc MAX_DEPTH"
  "(\<exists>bs. write_entries es depth = Inr bs) \<longleftrightarrow>
     list_all (\<lambda>(k, t). length k < 2 ^ 16 \<and> tag_fits t \<and> depth + tag_nesting t \<le> MAX_DEPTH) es"
  "(\<exists>bs. write_payload t depth = Inr bs) \<longleftrightarrow> tag_fits t \<and> depth + tag_nesting t \<le> MAX_DEPTH"
  "(\<exists>bs. write_items ts depth = Inr bs) \<longleftrightarrow>
     list_all (\<lambda>t. tag_fits t \<and> depth + tag_nesting t \<le> MAX_DEPTH) ts"
proof (induction c depth and es depth and t depth and ts depth
    rule: write_compound_body_write_entries_write_payload_write_items.induct)
  case (1 c depth)
  obtain es where c: "c = NbtCompound es" by (cases c)
  show ?case
  proof (cases "MAX_DEPTH < depth")
    case True
    then show ?thesis by (simp add: write_compound_body.simps c)
  next
    case False
    have "(\<exists>bs. write_compound_body c depth = Inr bs) \<longleftrightarrow> (\<exists>bs. write_entries es depth = Inr bs)"
      using False by (auto simp: write_compound_body.simps c split: sum.splits)
    with "1.IH" [OF False] False show ?thesis
      by (auto simp: c fold_max_add_le list_all_iff)
  qed
next
  case (3 name tag es depth)
  show ?case
    using 3 write_nbt_string_ok [of name]
    by (cases "write_nbt_string name"; cases "write_payload tag depth"; cases "write_entries es depth")
       auto
next
  case (4 tag depth)
  then show ?case by (intro write_payload_ok) fastforce+
next
  case (6 tag ts depth)
  then show ?case by (auto split: sum.splits)
qed simp_all

subsection \<open>Documents\<close>

definition nbt_doc_ok :: "nbt_compound \<Rightarrow> bool" where
  "nbt_doc_ok c \<longleftrightarrow> wf_compound c \<and> compound_nodes c \<le> MAX_TOTAL_NODES"

definition write_named_doc :: "rstring \<times> nbt_compound \<Rightarrow> nbt_error + byte list" where
  "write_named_doc nc = write_named_root (fst nc) (snd nc)"

definition named_doc_ok :: "rstring \<times> nbt_compound \<Rightarrow> bool" where
  "named_doc_ok nc \<longleftrightarrow> utf8_valid (fst nc) \<and> nbt_doc_ok (snd nc)"

lemma read_network_root_write:
  assumes "write_network_root c = Inr bs" "nbt_doc_ok c"
  shows "read_network_root (bs @ rest) = Inr (c, rest)"
proof -
  from assms(1) obtain bs' where "write_compound_body c 1 = Inr bs'" "bs = tag_id_code Id_Compound # bs'"
    by (auto simp: write_network_root_def split: sum.splits)
  with read_written(1) [of c 1 bs' 0 rest] assms(2) show ?thesis
    by (simp add: read_network_root_def nbt_doc_ok_def del: tag_id_code.simps)
qed

lemma write_network_root_read:
  assumes "read_network_root src = Inr (c, rest)"
  shows "nbt_doc_ok c \<and> (\<exists>bs. write_network_root c = Inr bs \<and> src = bs @ rest)"
proof -
  from assms obtain src1 n where "src = tag_id_code Id_Compound # src1"
      "read_compound_body src1 1 0 = Inr (c, rest, n)"
    by (auto simp: read_network_root_def read_tag_id_Inr split: sum.splits if_splits)
  with written_read(1) [of src1 1 0 c rest n] show ?thesis
    by (auto simp: write_network_root_def nbt_doc_ok_def)
qed

lemma read_named_root_write:
  assumes "write_named_doc nc = Inr bs" "named_doc_ok nc"
  shows "read_named_root (bs @ rest) = Inr (nc, rest)"
proof -
  from assms(1) obtain nbs bs' where w: "write_nbt_string (fst nc) = Inr nbs"
      "write_compound_body (snd nc) 1 = Inr bs'" "bs = tag_id_code Id_Compound # nbs @ bs'"
    by (auto simp: write_named_doc_def write_named_root_def split: sum.splits)
  with read_written(1) [OF w(2), of 0 rest] assms(2) show ?thesis
    by (simp add: read_named_root_def named_doc_ok_def nbt_doc_ok_def read_nbt_string_write
        del: tag_id_code.simps)
qed

lemma write_named_root_read:
  assumes "read_named_root src = Inr (nc, rest)"
  shows "named_doc_ok nc \<and> (\<exists>bs. write_named_doc nc = Inr bs \<and> src = bs @ rest)"
proof -
  from assms obtain src1 src2 name c n where r: "src = tag_id_code Id_Compound # src1"
      "read_nbt_string src1 = Inr (name, src2)"
      "read_compound_body src2 1 0 = Inr (c, rest, n)" "nc = (name, c)"
    by (auto simp: read_named_root_def read_tag_id_Inr split: sum.splits if_splits)
  with written_read(1) [OF r(3)] show ?thesis
    by (auto simp: write_named_doc_def write_named_root_def named_doc_ok_def nbt_doc_ok_def
        elim!: write_read_nbt_string)
qed

interpretation network_nbt: canonical_codec write_network_root read_network_root nbt_doc_ok
  by unfold_locales (fact read_network_root_write write_network_root_read)+

interpretation named_nbt: canonical_codec write_named_doc read_named_root named_doc_ok
  by unfold_locales (fact read_named_root_write write_named_root_read)+

lemma write_network_root_ok:
  "(\<exists>bs. write_network_root c = Inr bs) \<longleftrightarrow> compound_fits c \<and> compound_nesting c \<le> MAX_DEPTH"
  using write_ok(1) [of c 1] by (auto simp: write_network_root_def split: sum.splits)

text \<open>A document with an integer and a one-element list, and its network form.\<close>

definition sample_doc :: nbt_compound where
  "sample_doc = NbtCompound [([0x61], Nbt_Int 5), ([0x62], Nbt_List (NbtList Id_Byte [Nbt_Byte 1]))]"

definition sample_body :: "byte list" where
  "sample_body = [3, 0, 1, 0x61, 0, 0, 0, 5, 9, 0, 1, 0x62, 1, 0, 0, 0, 1, 1, 0]"

lemma write_sample_doc:
  "write_network_root sample_doc = Inr (10 # sample_body)"
  "write_named_root [0x68, 0x69] sample_doc = Inr (10 # 0 # 2 # 0x68 # 0x69 # sample_body)"
  by (simp_all add: write_network_root_def write_named_root_def sample_doc_def sample_body_def
      write_compound_body.simps write_payload.simps write_nbt_string_def array_len_def MAX_DEPTH_def
      eval_simps)

lemma sample_doc_ok:
  "wf_compound sample_doc" "compound_nodes sample_doc \<le> MAX_TOTAL_NODES"
  "compound_nesting sample_doc \<le> MAX_DEPTH" "compound_fits sample_doc" "nbt_doc_ok sample_doc"
  by (simp_all add: sample_doc_def MAX_TOTAL_NODES_def MAX_DEPTH_def nbt_doc_ok_def)

text \<open>
  C4: a document with well-formed strings, distinct names and homogeneous lists, within the
  length fields, the nesting limit and the node budget, is encoded in the network form, and
  decoding what was written returns it and leaves the bytes after it. The decoder of an optional
  document agrees.
\<close>

theorem nbt_network_roundtrip:
  assumes "wf_compound c" "compound_fits c" "compound_nesting c \<le> MAX_DEPTH"
    and "compound_nodes c \<le> MAX_TOTAL_NODES"
  shows "\<exists>bs. write_network_root c = Inr bs \<and>
      (\<forall>rest. read_network_root (bs @ rest) = Inr (c, rest) \<and>
              read_optional_network_root (bs @ rest) = Inr (Some c, rest))"
proof -
  obtain bs where bs: "write_network_root c = Inr bs"
    using assms(2,3) write_network_root_ok by blast
  have net: "read_network_root (bs @ rest) = Inr (c, rest)" for rest
    using assms(1,4) by (intro network_nbt.dec_enc [OF bs]) (simp add: nbt_doc_ok_def)
  have "read_optional_network_root (bs @ rest) = Inr (Some c, rest)" for rest
    using net [of rest]
    by (auto simp: read_network_root_def read_optional_network_root_def
        split: sum.splits tag_id.splits if_splits)
  with bs net show ?thesis by blast
qed

theorem nbt_network_roundtrip_witness:
  "\<exists>bs. write_network_root sample_doc = Inr bs \<and>
     (\<forall>rest. read_network_root (bs @ rest) = Inr (sample_doc, rest) \<and>
             read_optional_network_root (bs @ rest) = Inr (Some sample_doc, rest))"
  by (rule nbt_network_roundtrip) (rule sample_doc_ok)+

text \<open>
  The file form carries the name too: \<open>read_named_root\<close> returns what
  \<open>write_named_root\<close> writes, and it fails for no other reason than a name longer than its 16-bit prefix can say.
\<close>

theorem nbt_named_roundtrip:
  assumes "wf_compound c" "compound_fits c" "compound_nesting c \<le> MAX_DEPTH"
    and "compound_nodes c \<le> MAX_TOTAL_NODES" "utf8_valid name"
  shows "if length name < 2 ^ 16
     then \<exists>bs. write_named_root name c = Inr bs \<and>
            (\<forall>rest. read_named_root (bs @ rest) = Inr ((name, c), rest))
     else write_named_root name c = Inl (Nbt_StringTooLong (length name))"
proof (cases "length name < 2 ^ 16")
  case True
  moreover obtain bs' where "write_compound_body c 1 = Inr bs'"
    using write_ok(1) [of c 1] assms(2,3) by auto
  ultimately obtain bs where bs: "write_named_root name c = Inr bs"
    by (simp add: write_named_root_def write_nbt_string_def)
  have "read_named_root (bs @ rest) = Inr ((name, c), rest)" for rest
    using bs assms(1,4,5)
    by (intro named_nbt.dec_enc) (simp_all add: write_named_doc_def named_doc_ok_def nbt_doc_ok_def)
  with bs True show ?thesis by simp
qed (simp add: write_named_root_def write_nbt_string_def)

theorem nbt_named_roundtrip_witness:
  "\<exists>bs. write_named_root [0x68, 0x69] sample_doc = Inr bs \<and>
     (\<forall>rest. read_named_root (bs @ rest) = Inr (([0x68, 0x69], sample_doc), rest))"
  using nbt_named_roundtrip [OF sample_doc_ok(1,4,3,2), of "[0x68, 0x69]"] by simp

text \<open>
  C3: whatever the input, a document the network decoder accepts is well formed (distinct names
  at every level, homogeneous lists, valid UTF-8), holds at most \<open>MAX_TOTAL_NODES\<close> tags, nests at
  most \<open>MAX_DEPTH\<close> levels deep, and is exactly what the encoder writes: re-encoding it gives back
  the bytes that were consumed.
\<close>

theorem nbt_decoded_canonical:
  assumes "read_network_root src = Inr (c, rest)"
  shows "(\<exists>bs. write_network_root c = Inr bs \<and> src = bs @ rest) \<and> wf_compound c \<and>
      compound_nodes c \<le> MAX_TOTAL_NODES \<and> compound_nesting c \<le> MAX_DEPTH \<and> compound_fits c"
  using network_nbt.enc_dec [OF assms] write_network_root_ok [of c] by (auto simp: nbt_doc_ok_def)

theorem nbt_decoded_canonical_witness:
  "read_network_root (10 # sample_body @ [0xFF]) = Inr (sample_doc, [0xFF]) \<and>
   (\<exists>bs. write_network_root sample_doc = Inr bs \<and> 10 # sample_body @ [0xFF] = bs @ [0xFF])"
proof -
  have "read_network_root (10 # sample_body @ [0xFF]) = Inr (sample_doc, [0xFF])"
    using network_nbt.dec_enc [OF write_sample_doc(1) sample_doc_ok(5), of "[0xFF]"] by simp
  with nbt_decoded_canonical [OF this] show ?thesis by simp
qed

text \<open>
  C30: a truncated document is never accepted: the decoder fails on every strict prefix of an
  encoding, in the network form and in the file form.
\<close>

theorem nbt_truncation_rejected:
  assumes "wf_compound c" "compound_nodes c \<le> MAX_TOTAL_NODES"
  shows "(write_network_root c = Inr bs \<longrightarrow> strict_prefix p bs \<longrightarrow>
            (\<exists>e. read_network_root p = Inl e)) \<and>
         (write_named_root name c = Inr bs \<longrightarrow> utf8_valid name \<longrightarrow> strict_prefix p bs \<longrightarrow>
            (\<exists>e. read_named_root p = Inl e))"
  using assms network_nbt.truncated_rejected [of c bs p]
    named_nbt.truncated_rejected [of "(name, c)" bs p]
  by (simp add: nbt_doc_ok_def named_doc_ok_def write_named_doc_def)

theorem nbt_truncation_rejected_witness:
  "(\<exists>e. read_network_root [10, 3, 0, 1] = Inl e) \<and> (\<exists>e. read_named_root [10, 0, 2, 0x68] = Inl e)"
  using nbt_truncation_rejected [OF sample_doc_ok(1,2), of "10 # sample_body" "[10, 3, 0, 1]" "[]"]
    nbt_truncation_rejected [OF sample_doc_ok(1,2), of "10 # 0 # 2 # 0x68 # 0x69 # sample_body"
      "[10, 0, 2, 0x68]" "[0x68, 0x69]"]
  by (simp add: write_sample_doc sample_body_def)

text \<open>
  C31: the encoder's domain: it succeeds exactly on documents whose strings and arrays fit their
  length fields and whose nesting is at most \<open>MAX_DEPTH\<close>, the limit the decoder enforces.
\<close>

theorem nbt_encoder_domain:
  "(\<exists>bs. write_network_root c = Inr bs) \<longleftrightarrow> compound_fits c \<and> compound_nesting c \<le> MAX_DEPTH"
  by (rule write_network_root_ok)

subsection \<open>Mixing up the forms, and the budget\<close>

text \<open>
  The two root forms must not be confused: the network decoder does not fail on a file-form
  document whose name is shorter than 256 bytes, it returns the empty compound.
\<close>

theorem nbt_named_read_as_network:
  assumes "write_named_root name c = Inr bs" "length name < 256"
  shows "\<exists>rest. read_network_root bs = Inr (compound_new, rest)"
proof -
  have "drop_bit 8 (of_nat (length name) :: u16) = 0"
  proof -
    have "unat (drop_bit 8 (of_nat (length name) :: u16)) = 0"
      using assms(2) by (simp add: drop_bit_eq_div unat_div unat_of_nat)
    then show ?thesis by (simp add: unsigned_eq_0_iff)
  qed
  moreover from assms(1) obtain bs' where "bs = 10 # to_be_bytes 2 (of_nat (length name) :: u16) @ name @ bs'"
    by (auto simp: write_named_root_def write_nbt_string_def split: sum.splits if_splits)
  ultimately have "bs = tag_id_code Id_Compound # 0 # ucast (of_nat (length name) :: u16) # name @ bs'"
    by (simp add: to_be_bytes_eval)
  moreover have "read_compound_body (0 # rest) 1 0 = Inr (compound_new, rest, 0)" for rest
    by (simp add: read_compound_body.simps read_entries_end compound_new_def MAX_DEPTH_def)
  ultimately show ?thesis
    by (simp add: read_network_root_def del: tag_id_code.simps)
qed

theorem nbt_named_read_as_network_witness:
  "\<exists>rest. read_network_root (10 # 0 # 2 # 0x68 # 0x69 # sample_body) = Inr (compound_new, rest)"
  by (rule nbt_named_read_as_network [OF write_sample_doc(2)]) simp

end
