(* ===== verification/Buf.thy ===== *)
theory Buf
  imports VarInt NbtRoundtrip
begin

text \<open>
  \<open>crates/protocol/src/buf.rs\<close>: the field codecs every packet is built from. A closure argument
  (\<open>write_item\<close>, \<open>read_item\<close>) is a function argument. The locale \<open>field_codec\<close> is the contract of
  a field whose writer cannot fail; arrays and optionals of such a field are such fields again, and
  each primitive is an instance.
\<close>

definition MAX_BYTES_PER_CHAR :: usize where
  "MAX_BYTES_PER_CHAR = 3"

definition write_string :: "rstring \<Rightarrow> byte list" where
  "write_string s = write_varint (i32_of_usize (length s)) @ s"

definition read_string :: "usize \<Rightarrow> rstring preader" where
  "read_string max_chars src =
     (case read_varint src of
        Inl e \<Rightarrow> Inl e
      | Inr (declared, src1) \<Rightarrow>
          (case usize_try_from_i32 declared of
             None \<Rightarrow> Inl (NegativeLength declared)
           | Some len \<Rightarrow>
               (let limit = saturating_mul max_chars MAX_BYTES_PER_CHAR in
                 if len > limit then Inl (StringTooLong len limit)
                 else if length src1 < len then Inl UnexpectedEof
                 else (case from_utf8 (take len src1) of
                         Inl e \<Rightarrow> Inl (InvalidUtf8 e)
                       | Inr s \<Rightarrow> Inr (s, drop len src1)))))"

definition write_u16 :: "u16 \<Rightarrow> byte list" where
  "write_u16 v = to_be_bytes 2 v"

definition read_u16 :: "u16 preader" where
  "read_u16 src = (if length src < 2 then Inl UnexpectedEof else Inr (get_be 2 src))"

definition write_i64 :: "i64 \<Rightarrow> byte list" where
  "write_i64 v = to_be_bytes 8 v"

definition read_i64 :: "i64 preader" where
  "read_i64 src = (if length src < 8 then Inl UnexpectedEof else Inr (get_be 8 src))"

definition write_uuid :: "u128 \<Rightarrow> byte list" where
  "write_uuid v = to_be_bytes 16 v"

definition read_uuid :: "u128 preader" where
  "read_uuid src = (if length src < 16 then Inl UnexpectedEof else Inr (get_be 16 src))"

definition write_prefixed_array :: "'a list \<Rightarrow> ('a \<Rightarrow> byte list) \<Rightarrow> byte list" where
  "write_prefixed_array xs write_item =
     write_varint (i32_of_usize (length xs)) @ concat (map write_item xs)"

text \<open>The loop \<open>for _ in 0..len\<close> of \<open>read_prefixed_array\<close>.\<close>

fun read_n :: "usize \<Rightarrow> 'a preader \<Rightarrow> 'a list preader" where
  "read_n 0 read_item src = Inr ([], src)"
| "read_n (Suc n) read_item src =
     (case read_item src of
        Inl e \<Rightarrow> Inl e
      | Inr (x, src1) \<Rightarrow>
          (case read_n n read_item src1 of
             Inl e \<Rightarrow> Inl e
           | Inr (xs, src2) \<Rightarrow> Inr (x # xs, src2)))"

definition read_prefixed_array :: "usize \<Rightarrow> 'a preader \<Rightarrow> 'a list preader" where
  "read_prefixed_array max_len read_item src =
     (case read_varint src of
        Inl e \<Rightarrow> Inl e
      | Inr (declared, src1) \<Rightarrow>
          (case usize_try_from_i32 declared of
             None \<Rightarrow> Inl (NegativeLength declared)
           | Some len \<Rightarrow>
               if len > max_len then Inl (ArrayTooLong len max_len)
               else read_n len read_item src1))"

text \<open>
  The vector's initial reservation, \<open>Vec::with_capacity\<close>: \<open>None\<close> when the array is refused before it.
  This module has its own \<open>MAX_PREALLOC_ELEMENTS\<close>.
\<close>

definition BUF_MAX_PREALLOC_ELEMENTS :: usize where
  "BUF_MAX_PREALLOC_ELEMENTS = 64"

definition array_capacity :: "usize \<Rightarrow> byte list \<Rightarrow> usize option" where
  "array_capacity max_len src =
     (case read_varint src of
        Inl _ \<Rightarrow> None
      | Inr (declared, _) \<Rightarrow>
          (case usize_try_from_i32 declared of
             None \<Rightarrow> None
           | Some len \<Rightarrow> if len > max_len then None else Some (min len BUF_MAX_PREALLOC_ELEMENTS)))"

definition write_prefixed_optional :: "'a option \<Rightarrow> ('a \<Rightarrow> byte list) \<Rightarrow> byte list" where
  "write_prefixed_optional v write_value =
     (case v of Some x \<Rightarrow> 1 # write_value x | None \<Rightarrow> [0])"

definition read_prefixed_optional :: "'a preader \<Rightarrow> 'a option preader" where
  "read_prefixed_optional read_value src =
     (case src of
        [] \<Rightarrow> Inl UnexpectedEof
      | b # src1 \<Rightarrow>
          if b = 0 then Inr (None, src1)
          else if b = 1 then
            (case read_value src1 of Inl e \<Rightarrow> Inl e | Inr (x, src2) \<Rightarrow> Inr (Some x, src2))
          else Inl (InvalidBoolean b))"

definition write_nbt :: "nbt_compound \<Rightarrow> protocol_error + byte list" where
  "write_nbt c = (case write_network_root c of Inl e \<Rightarrow> Inl (Nbt e) | Inr bs \<Rightarrow> Inr bs)"

definition read_nbt :: "nbt_compound preader" where
  "read_nbt src = (case read_network_root src of Inl e \<Rightarrow> Inl (Nbt e) | Inr r \<Rightarrow> Inr r)"

subsection \<open>Fields\<close>

locale field_codec =
  fixes wr :: "'a \<Rightarrow> byte list"
    and rd :: "'a preader"
    and ok :: "'a \<Rightarrow> bool"
  assumes rd_wr: "ok x \<Longrightarrow> rd (wr x @ rest) = Inr (x, rest)"
    and rd_extend: "rd src = Inr (x, rest) \<Longrightarrow> rd (src @ ys) = Inr (x, rest @ ys)"

sublocale field_codec \<subseteq> codec: streaming_codec "\<lambda>x. Inr (wr x)" rd ok
  by unfold_locales (auto simp: rd_wr rd_extend)

context field_codec
begin

lemma rd_wr_exact: "ok x \<Longrightarrow> rd (wr x) = Inr (x, [])"
  using rd_wr [of x "[]"] by simp

lemma truncated: "ok x \<Longrightarrow> strict_prefix p (wr x) \<Longrightarrow> \<exists>e. rd p = Inl e"
  by (rule codec.truncated_rejected [OF refl])

lemma read_n_write:
  "list_all ok xs \<Longrightarrow> read_n (length xs) rd (concat (map wr xs) @ rest) = Inr (xs, rest)"
  by (induction xs) (simp_all add: rd_wr)

lemma read_n_extend:
  "read_n n rd src = Inr (xs, rest) \<Longrightarrow> read_n n rd (src @ ys) = Inr (xs, rest @ ys)"
proof (induction n arbitrary: src xs)
  case (Suc n)
  then obtain x src1 xs' where r: "rd src = Inr (x, src1)" "read_n n rd src1 = Inr (xs', rest)" "xs = x # xs'"
    by (auto split: sum.splits)
  with Suc.IH [OF r(2)] rd_extend [OF r(1), of ys] show ?case by simp
qed simp

text \<open>An array of fields, and an optional field, are fields.\<close>

lemma array_field:
  "field_codec (\<lambda>xs. write_prefixed_array xs wr) (read_prefixed_array m rd)
     (\<lambda>xs. list_all ok xs \<and> length xs \<le> m \<and> length xs < 2 ^ 31)"
proof unfold_locales
  fix xs rest
  assume "list_all ok xs \<and> length xs \<le> m \<and> length xs < 2 ^ 31"
  then show "read_prefixed_array m rd (write_prefixed_array xs wr @ rest) = Inr (xs, rest)"
    by (simp add: read_prefixed_array_def write_prefixed_array_def usize_try_from_of_usize read_n_write)
next
  fix src xs rest ys
  assume "read_prefixed_array m rd src = Inr (xs, rest)"
  then obtain d src1 n where "read_varint src = Inr (d, src1)" "usize_try_from_i32 d = Some n"
      "n \<le> m" "read_n n rd src1 = Inr (xs, rest)"
    by (auto simp: read_prefixed_array_def split: sum.splits option.splits if_splits)
  then show "read_prefixed_array m rd (src @ ys) = Inr (xs, rest @ ys)"
    using read_varint_extend [of src d src1 ys] by (simp add: read_prefixed_array_def read_n_extend)
qed

lemma optional_field:
  "field_codec (\<lambda>v. write_prefixed_optional v wr) (read_prefixed_optional rd) (pred_option ok)"
proof unfold_locales
  fix v rest
  assume "pred_option ok v"
  then show "read_prefixed_optional rd (write_prefixed_optional v wr @ rest) = Inr (v, rest)"
    by (cases v) (simp_all add: read_prefixed_optional_def write_prefixed_optional_def rd_wr)
next
  fix src v rest ys
  assume "read_prefixed_optional rd src = Inr (v, rest)"
  then show "read_prefixed_optional rd (src @ ys) = Inr (v, rest @ ys)"
    by (auto simp: read_prefixed_optional_def split: list.splits if_splits sum.splits
        dest: rd_extend [where ys = ys])
qed

end

subsection \<open>Instances\<close>

lemma saturating_limit: "n \<le> saturating_mul m k \<longleftrightarrow> n \<le> m * k \<and> n \<le> USIZE_MAX"
  by (auto simp: saturating_mul_def)

text \<open>The strings a field of \<open>max_chars\<close> admits.\<close>

definition string_ok :: "usize \<Rightarrow> rstring \<Rightarrow> bool" where
  "string_ok max_chars s \<longleftrightarrow> utf8_valid s \<and> length s \<le> max_chars * MAX_BYTES_PER_CHAR \<and> length s < 2 ^ 31"

lemma read_string_write:
  assumes "string_ok m s"
  shows "read_string m (write_string s @ rest) = Inr (s, rest)"
proof -
  have "length s \<le> saturating_mul m MAX_BYTES_PER_CHAR"
    using assms by (simp add: string_ok_def saturating_limit USIZE_MAX_def)
  with assms show ?thesis
    by (simp add: read_string_def write_string_def string_ok_def usize_try_from_of_usize Let_def)
qed

lemma read_string_extend:
  assumes "read_string m src = Inr (s, rest)"
  shows "read_string m (src @ ys) = Inr (s, rest @ ys)"
proof -
  from assms obtain d src1 n where "read_varint src = Inr (d, src1)" "usize_try_from_i32 d = Some n"
      "n \<le> saturating_mul m MAX_BYTES_PER_CHAR" "n \<le> length src1" "from_utf8 (take n src1) = Inr s"
      "rest = drop n src1"
    by (auto simp: read_string_def Let_def split: sum.splits option.splits if_splits)
  then show ?thesis
    using read_varint_extend [of src d src1 ys] by (simp add: read_string_def)
qed

lemma read_string_ok:
  assumes "read_string m src = Inr (s, rest)"
  shows "string_ok m s"
  using assms
  by (auto simp: read_string_def string_ok_def Let_def from_utf8_eq saturating_mul_def
      split: sum.splits option.splits if_splits)
     (auto dest!: usize_try_from_i32_bound)

interpretation varint_field: field_codec write_varint read_varint "\<lambda>_. True"
  by unfold_locales (simp_all add: read_varint_extend)

interpretation string_field: field_codec write_string "read_string m" "string_ok m" for m
  by unfold_locales (simp_all add: read_string_write read_string_extend)

text \<open>The fixed-width integers share one argument.\<close>

lemma be_field:
  fixes rd :: "'a::len word preader"
  assumes "LENGTH('a) = 8 * n"
    and wr: "\<And>v. wr v = to_be_bytes n v"
    and rd: "\<And>src. rd src = (if length src < n then Inl UnexpectedEof else Inr (get_be n src))"
  shows "field_codec wr rd (\<lambda>_. True)"
proof unfold_locales
  show "rd (wr v @ rest) = Inr (v, rest)" for v rest
    using assms(1) by (simp add: wr rd)
  show "rd (src @ ys) = Inr (v, rest @ ys)" if "rd src = Inr (v, rest)" for src v rest ys
    using that by (simp add: rd get_be_append split: if_splits)
qed

interpretation u16_field: field_codec write_u16 read_u16 "\<lambda>_. True"
  by (rule be_field [where n = 2]) (simp_all add: write_u16_def read_u16_def)

interpretation i64_field: field_codec write_i64 read_i64 "\<lambda>_. True"
  by (rule be_field [where n = 8]) (simp_all add: write_i64_def read_i64_def)

interpretation uuid_field: field_codec write_uuid read_uuid "\<lambda>_. True"
  by (rule be_field [where n = 16]) (simp_all add: write_uuid_def read_uuid_def)

interpretation nbt_field: canonical_codec write_nbt read_nbt nbt_doc_ok
proof unfold_locales
  fix c bs rest
  assume "write_nbt c = Inr bs" "nbt_doc_ok c"
  then show "read_nbt (bs @ rest) = Inr (c, rest)"
    using network_nbt.dec_enc [of c bs rest] by (simp add: write_nbt_def read_nbt_def split: sum.splits)
next
  fix src c rest
  assume "read_nbt src = Inr (c, rest)"
  then show "nbt_doc_ok c \<and> (\<exists>bs. write_nbt c = Inr bs \<and> src = bs @ rest)"
    using network_nbt.enc_dec [of src c rest] by (auto simp: write_nbt_def read_nbt_def split: sum.splits)
qed

text \<open>The extension law of the primitive readers, for the packets built from them.\<close>

lemma primitives_extend [extend_intros]:
  "extends read_varint" "extends (read_string m)" "extends read_u16" "extends read_i64" "extends read_uuid"
  using varint_field.rd_extend string_field.rd_extend u16_field.rd_extend i64_field.rd_extend
    uuid_field.rd_extend
  by (auto simp: extends_def)

lemma composites_extend [extend_intros]:
  assumes "extends r"
  shows "extends (read_prefixed_array m r)" "extends (read_prefixed_optional r)"
proof -
  have "field_codec (\<lambda>_. []) r (\<lambda>_. False)"
    using assms by unfold_locales (auto simp: extends_def)
  then show "extends (read_prefixed_array m r)" "extends (read_prefixed_optional r)"
    using field_codec.rd_extend [OF field_codec.array_field]
      field_codec.rd_extend [OF field_codec.optional_field]
    by (auto simp: extends_def)
qed

lemmas packet_field_simps = varint_field.rd_wr string_field.rd_wr u16_field.rd_wr i64_field.rd_wr uuid_field.rd_wr
subsection \<open>Properties\<close>

lemma read_n_length: "read_n n rd src = Inr (xs, rest) \<Longrightarrow> length xs = n"
  by (induction n arbitrary: src xs) (auto split: sum.splits)

text \<open>
  A string field of \<open>max_chars\<close> carries every string of that many UTF-16 units: the limit
  of three bytes per declared character never rejects what the protocol permits, and the string
  comes back with the bytes after it untouched.
\<close>

theorem string_field_accepts:
  assumes "utf8_valid s" "utf16_len s \<le> max_chars" "max_chars * MAX_BYTES_PER_CHAR < 2 ^ 31"
  shows "read_string max_chars (write_string s @ rest) = Inr (s, rest)"
proof (rule string_field.rd_wr)
  show "string_ok max_chars s"
    using assms utf8_bytes_le_utf16 [OF assms(1)] by (simp add: string_ok_def MAX_BYTES_PER_CHAR_def)
qed

theorem string_field_accepts_witness:
  "read_string 2 (write_string [0xF0, 0x9F, 0x98, 0x80] @ [7]) = Inr ([0xF0, 0x9F, 0x98, 0x80], [7])"
proof (rule string_field_accepts)
  show "utf8_valid [0xF0, 0x9F, 0x98, 0x80]"
    by (simp add: utf8_valid_def run_utf8_validation.simps utf8_char_width_def second_of_four_def
        is_continuation_def)
  show "utf16_len [0xF0, 0x9F, 0x98, 0x80] \<le> 2"
    by (simp add: utf16_len_def utf8_char_width_def low6_def)
qed (simp add: MAX_BYTES_PER_CHAR_def)

text \<open>
  What a string field yields is valid UTF-8 of at most three bytes per declared character,
  and the check comes before the bytes are looked at: a declared length above the limit is
  rejected whatever follows.
\<close>

theorem read_string_bounded:
  "(read_string max_chars src = Inr (s, rest) \<longrightarrow>
      utf8_valid s \<and> length s \<le> max_chars * MAX_BYTES_PER_CHAR) \<and>
   (max_chars * MAX_BYTES_PER_CHAR < n \<longrightarrow> n < 2 ^ 31 \<longrightarrow>
      (\<exists>m. read_string max_chars (write_varint (i32_of_usize n) @ src) = Inl (StringTooLong n m)))"
proof -
  have "read_string max_chars (write_varint (i32_of_usize n) @ src) =
      Inl (StringTooLong n (saturating_mul max_chars MAX_BYTES_PER_CHAR))"
    if "max_chars * MAX_BYTES_PER_CHAR < n" "n < 2 ^ 31"
    using that by (simp add: read_string_def usize_try_from_of_usize saturating_mul_def min_def)
  then show ?thesis using read_string_ok [of max_chars src s rest] by (auto simp: string_ok_def)
qed

theorem read_string_bounded_witness:
  "\<exists>m. read_string 16 (write_varint (i32_of_usize 49) @ []) = Inl (StringTooLong 49 m)"
  using read_string_bounded [of 16 "[]" "[]" "[]" 49] by (simp add: MAX_BYTES_PER_CHAR_def)

text \<open>
  C39: the limit counts bytes, not characters: an ASCII string of three times
  \<open>max_chars\<close> characters is accepted by a field of \<open>max_chars\<close>.
\<close>

theorem string_field_counts_bytes:
  assumes "list_all (\<lambda>b. b < 0x80) s" "length s = 3 * max_chars" "length s < 2 ^ 31"
  shows "length (chars s) = 3 * max_chars \<and>
     read_string max_chars (write_string s @ rest) = Inr (s, rest)"
proof -
  have "string_ok max_chars s"
    using assms by (simp add: string_ok_def ascii_utf8_valid MAX_BYTES_PER_CHAR_def)
  then show ?thesis
    using assms by (simp add: chars_ascii string_field.rd_wr)
qed

theorem string_field_counts_bytes_witness:
  "length (chars (replicate 48 0x61)) = 3 * 16 \<and>
   read_string 16 (write_string (replicate 48 0x61) @ []) = Inr (replicate 48 0x61, [])"
  using string_field_counts_bytes [of "replicate 48 0x61" 16 "[]"] by (simp add: list_all_length)

text \<open>
  An array field never yields more elements than its limit, whatever reads the elements, and a
  declared count above the limit is rejected before any element is read.
\<close>

theorem prefixed_array_bounded:
  "(read_prefixed_array max_len read_item src = Inr (xs, rest) \<longrightarrow> length xs \<le> max_len) \<and>
   (max_len < n \<longrightarrow> n < 2 ^ 31 \<longrightarrow>
      read_prefixed_array max_len read_item (write_varint (i32_of_usize n) @ src) =
        Inl (ArrayTooLong n max_len))"
  by (auto simp: read_prefixed_array_def usize_try_from_of_usize dest: read_n_length
      split: sum.splits option.splits if_splits)

theorem prefixed_array_bounded_witness:
  "read_prefixed_array 16 read_uuid (write_varint (i32_of_usize 17) @ []) = Inl (ArrayTooLong 17 16)"
  using prefixed_array_bounded [of 16 read_uuid "[]" "[]" "[]" 17] by simp

text \<open>
  Arrays and optionals are as good as their elements: where reading an element returns what
  was written and ignores what follows, so do the array within its limit and the optional, and
  every truncation of either is an error.
\<close>

theorem prefixed_fields_roundtrip:
  assumes "field_codec wr rd ok" "list_all ok xs" "length xs \<le> max_len" "length xs < 2 ^ 31"
    and "pred_option ok v"
  shows "read_prefixed_array max_len rd (write_prefixed_array xs wr @ rest) = Inr (xs, rest) \<and>
      read_prefixed_optional rd (write_prefixed_optional v wr @ rest) = Inr (v, rest) \<and>
      (\<forall>p. strict_prefix p (write_prefixed_array xs wr) \<longrightarrow>
         (\<exists>e. read_prefixed_array max_len rd p = Inl e)) \<and>
      (\<forall>p. strict_prefix p (write_prefixed_optional v wr) \<longrightarrow>
         (\<exists>e. read_prefixed_optional rd p = Inl e))"
proof -
  note a = field_codec.array_field [OF assms(1), of max_len]
  note o = field_codec.optional_field [OF assms(1)]
  show ?thesis
    using field_codec.rd_wr [OF a] field_codec.truncated [OF a] field_codec.rd_wr [OF o]
      field_codec.truncated [OF o] assms(2-) by simp
qed

theorem prefixed_fields_roundtrip_witness:
  "read_prefixed_array 16 read_uuid (write_prefixed_array [1, 2] write_uuid @ []) = Inr ([1, 2], []) \<and>
   read_prefixed_optional read_uuid (write_prefixed_optional (Some 3) write_uuid @ []) = Inr (Some 3, [])"
  using prefixed_fields_roundtrip [OF uuid_field.field_codec_axioms, of "[1, 2]" 16 "Some 3" "[]"] by simp

subsection \<open>Reservations\<close>

text \<open>
  No reservation exceeds the cap or the caller's limit, whatever the count claims, and a count
  that is refused reserves nothing.
\<close>

lemma array_capacity_bound:
  "array_capacity m src = Some k \<Longrightarrow> k \<le> BUF_MAX_PREALLOC_ELEMENTS \<and> k \<le> m"
  "read_prefixed_array m rd src = Inl (ArrayTooLong len m) \<Longrightarrow> m < len \<Longrightarrow>
     (\<And>xs e. rd xs = Inl e \<Longrightarrow> e \<noteq> ArrayTooLong len m) \<Longrightarrow> array_capacity m src = None"
  "read_prefixed_array m rd src = Inr (xs, rest) \<Longrightarrow>
     array_capacity m src = Some (min (length xs) BUF_MAX_PREALLOC_ELEMENTS)"
proof -
  show "array_capacity m src = Some k \<Longrightarrow> k \<le> BUF_MAX_PREALLOC_ELEMENTS \<and> k \<le> m"
    by (auto simp: array_capacity_def split: sum.splits option.splits if_splits)
  show "read_prefixed_array m rd src = Inr (xs, rest) \<Longrightarrow>
     array_capacity m src = Some (min (length xs) BUF_MAX_PREALLOC_ELEMENTS)"
    by (auto simp: array_capacity_def read_prefixed_array_def dest!: read_n_length
        split: sum.splits option.splits if_splits)
  have "read_n n rd src' = Inl e \<Longrightarrow> \<exists>xs. rd xs = Inl e" for n src' e
    by (induction n arbitrary: src') (auto split: sum.splits)
  then show "read_prefixed_array m rd src = Inl (ArrayTooLong len m) \<Longrightarrow> m < len \<Longrightarrow>
     (\<And>xs e. rd xs = Inl e \<Longrightarrow> e \<noteq> ArrayTooLong len m) \<Longrightarrow> array_capacity m src = None"
    by (auto simp: array_capacity_def read_prefixed_array_def split: sum.splits option.splits if_splits) metis
qed

end
