(* ===== verification/StatusJson.thy ===== *)
theory StatusJson
  imports ProtocolError
begin

text \<open>
  The documents the server sends as JSON: \<open>crates/protocol/src/text.rs\<close>, the JSON structs of
  \<open>crates/protocol/src/packets/status.rs\<close>, and the pinned version of
  \<open>crates/protocol/src/version.rs\<close>. A JSON value is what a document says, with a number that is not an
  integer kept as its literal. The \<open>Serialize\<close> derives and their attributes fix the JSON value
  of a struct; that value is computed here. Its rendering, \<open>serde_json::to_string\<close>, is a parameter
  \<open>to_string :: json \<Rightarrow> json_error + rstring\<close> of the definitions that call it.
\<close>

datatype json =
    JNull
  | JBool bool
  | JInt int
  | JFloat rstring
  | JString rstring
  | JArray "json list"
  | JObject "(rstring \<times> json) list"

type_synonym json_printer = "json \<Rightarrow> json_error + rstring"

text \<open>The bytes of an ASCII literal.\<close>

definition ascii :: "string \<Rightarrow> rstring" where
  "ascii cs = map of_char cs"

definition PROTOCOL_VERSION :: i32 where
  "PROTOCOL_VERSION = 776"

definition VERSION_NAME :: rstring where
  "VERSION_NAME = ascii ''26.2''"

subsection \<open>Text components\<close>

datatype text_component =
  TextComponent (tc_text: rstring) (color: "rstring option") (bold: "bool option")
    (italic: "bool option") (extra: "text_component list")

definition text_component_new :: "rstring \<Rightarrow> text_component" where
  "text_component_new t = TextComponent t None None None []"

text \<open>A field with \<open>skip_serializing_if = "Option::is_none"\<close>.\<close>

definition optional_member :: "string \<Rightarrow> ('a \<Rightarrow> json) \<Rightarrow> 'a option \<Rightarrow> (rstring \<times> json) list" where
  "optional_member name f v = (case v of None \<Rightarrow> [] | Some x \<Rightarrow> [(ascii name, f x)])"

fun json_of_text :: "text_component \<Rightarrow> json" where
  "json_of_text (TextComponent t c b i ex) =
     JObject ([(ascii ''text'', JString t)] @ optional_member ''color'' JString c @
       optional_member ''bold'' JBool b @ optional_member ''italic'' JBool i @
       (if ex = [] then [] else [(ascii ''extra'', JArray (map json_of_text ex))]))"

subsection \<open>The status document\<close>

record version_info =
  vi_name :: rstring
  vi_protocol :: i32

record sample_player =
  sp_name :: rstring
  sp_id :: rstring

record players_info =
  pi_max :: i32
  pi_online :: i32
  pi_sample :: "sample_player list"

record status_response_json =
  sr_version :: version_info
  sr_players :: players_info
  sr_description :: text_component
  sr_favicon :: "rstring option"
  sr_enforces_secure_chat :: bool

definition status_response_json_new :: "text_component \<Rightarrow> i32 \<Rightarrow> i32 \<Rightarrow> status_response_json" where
  "status_response_json_new description max_players online_players =
     \<lparr>sr_version = \<lparr>vi_name = VERSION_NAME, vi_protocol = PROTOCOL_VERSION\<rparr>,
      sr_players = \<lparr>pi_max = max_players, pi_online = online_players, pi_sample = []\<rparr>,
      sr_description = description,
      sr_favicon = None,
      sr_enforces_secure_chat = False\<rparr>"

definition json_of_version :: "version_info \<Rightarrow> json" where
  "json_of_version v = JObject [(ascii ''name'', JString (vi_name v)), (ascii ''protocol'', JInt (sint (vi_protocol v)))]"

definition json_of_sample :: "sample_player \<Rightarrow> json" where
  "json_of_sample s = JObject [(ascii ''name'', JString (sp_name s)), (ascii ''id'', JString (sp_id s))]"

definition json_of_players :: "players_info \<Rightarrow> json" where
  "json_of_players p =
     JObject [(ascii ''max'', JInt (sint (pi_max p))), (ascii ''online'', JInt (sint (pi_online p))),
              (ascii ''sample'', JArray (map json_of_sample (pi_sample p)))]"

definition json_of_status :: "status_response_json \<Rightarrow> json" where
  "json_of_status s =
     JObject ([(ascii ''version'', json_of_version (sr_version s)),
               (ascii ''players'', json_of_players (sr_players s)),
               (ascii ''description'', json_of_text (sr_description s))] @
              optional_member ''favicon'' JString (sr_favicon s) @
              [(ascii ''enforcesSecureChat'', JBool (sr_enforces_secure_chat s))])"

subsection \<open>Reading the documents back\<close>

text \<open>The member of an object, and the path of members through nested objects.\<close>

fun json_member :: "json \<Rightarrow> string \<Rightarrow> json option" where
  "json_member (JObject ms) name = map_of ms (ascii name)"
| "json_member _ name = None"

lemma json_member_names:
  "ascii ''text'' = [0x74, 0x65, 0x78, 0x74]" "ascii ''color'' = [0x63, 0x6F, 0x6C, 0x6F, 0x72]"
  "ascii ''bold'' = [0x62, 0x6F, 0x6C, 0x64]"
  "ascii ''italic'' = [0x69, 0x74, 0x61, 0x6C, 0x69, 0x63]"
  "ascii ''extra'' = [0x65, 0x78, 0x74, 0x72, 0x61]"
  by (simp_all add: ascii_def)

lemma text_members:
  "json_member (json_of_text t) ''text'' = Some (JString (tc_text t))"
  "json_member (json_of_text t) ''color'' = map_option JString (color t)"
  "json_member (json_of_text t) ''bold'' = map_option JBool (bold t)"
  "json_member (json_of_text t) ''italic'' = map_option JBool (italic t)"
  "json_member (json_of_text t) ''extra'' =
     (if extra t = [] then None else Some (JArray (map json_of_text (extra t))))"
  by (cases t; auto simp: optional_member_def json_member_names split: option.splits)+

lemma map_option_inject: "inj f \<Longrightarrow> map_option f x = map_option f y \<longleftrightarrow> x = y"
  by (cases x; cases y) (auto simp: inj_eq)

text \<open>
  The JSON form of a text component determines the component: omitting unset members and
  an empty list of children loses nothing.
\<close>

theorem json_of_text_inject: "json_of_text s = json_of_text t \<longleftrightarrow> s = t"
proof
  show "json_of_text s = json_of_text t \<Longrightarrow> s = t"
  proof (induction s arbitrary: t rule: json_of_text.induct)
    case (1 a c b i ex)
    let ?s = "TextComponent a c b i ex"
    note m = text_members [of ?s, unfolded "1.prems", unfolded text_members, simplified]
    have "inj JString" "inj JBool" by (auto intro: injI)
    then have "tc_text t = a" "color t = c" "bold t = b" "italic t = i"
      using m(1-4) by (simp_all add: map_option_inject)
    moreover have eq: "map json_of_text ex = map json_of_text (extra t)"
      using m(5) by (auto split: if_splits)
    have "ex = extra t"
    proof (rule list.inj_map_strong [OF _ eq])
      fix x y
      assume "x \<in> set ex" "json_of_text x = json_of_text y"
      then show "x = y" by (intro "1.IH") auto
    qed
    ultimately show ?case by (cases t) simp
  qed
qed simp

text \<open>
  The status document the server builds advertises the pinned version under \<open>version\<close>, the
  configured slots and nobody online under \<open>players\<close>, the given description, and no icon.
\<close>

theorem status_document:
  "let doc = json_of_status (status_response_json_new description max_players online) in
     json_member doc ''version'' =
       Some (JObject [(ascii ''name'', JString (ascii ''26.2'')), (ascii ''protocol'', JInt 776)]) \<and>
     json_member doc ''players'' =
       Some (JObject [(ascii ''max'', JInt (sint max_players)), (ascii ''online'', JInt (sint online)),
                      (ascii ''sample'', JArray [])]) \<and>
     json_member doc ''description'' = Some (json_of_text description) \<and>
     json_member doc ''favicon'' = None \<and>
     json_member doc ''enforcesSecureChat'' = Some (JBool False)"
  by (simp add: json_of_status_def status_response_json_new_def json_of_version_def json_of_players_def
      optional_member_def PROTOCOL_VERSION_def VERSION_NAME_def ascii_def)

end
