(* ===== verification/Packets.thy ===== *)
theory Packets
  imports Buf StatusJson
begin

text \<open>
  The packets of \<open>crates/protocol/src/packets\<close>. The trait \<open>Packet\<close> is a record of its constants and
  its two functions, and an \<open>impl Packet for P\<close> a value of it. \<open>encode_body\<close> is the bytes appended
  to the destination together with the result, since what a failing encoder appended stays there.
  The locale \<open>packet_impl\<close> is what the codec and the connection rely on; each of the ten packets is
  shown to satisfy it.
\<close>

record 'p packet =
  ID :: i32
  STATE :: state
  DIRECTION :: direction
  encode_body :: "'p \<Rightarrow> byte list \<times> (protocol_error + unit)"
  decode_body :: "'p preader"

subsection \<open>Handshake\<close>

definition MAX_SERVER_ADDRESS_CHARS :: usize where
  "MAX_SERVER_ADDRESS_CHARS = 255"

datatype next_state = NS_Status | NS_Login | NS_Transfer

text \<open>\<open>next_state as i32\<close>.\<close>

fun next_state_code :: "next_state \<Rightarrow> i32" where
  "next_state_code NS_Status = 1"
| "next_state_code NS_Login = 2"
| "next_state_code NS_Transfer = 3"

definition next_state_try_from :: "i32 \<Rightarrow> protocol_error + next_state" where
  "next_state_try_from v =
     (if v = 1 then Inr NS_Status
      else if v = 2 then Inr NS_Login
      else if v = 3 then Inr NS_Transfer
      else Inl (InvalidNextState v))"

record handshake =
  protocol_version :: i32
  server_address :: rstring
  server_port :: u16
  next_state :: next_state

definition Handshake :: "handshake packet" where
  "Handshake =
     \<lparr>ID = 0x00, STATE = Handshaking, DIRECTION = Serverbound,
      encode_body = (\<lambda>p.
        (write_varint (protocol_version p) @ write_string (server_address p) @
         write_u16 (server_port p) @ write_varint (next_state_code (next_state p)), Inr ())),
      decode_body =
        rbind read_varint (\<lambda>v.
        rbind (read_string MAX_SERVER_ADDRESS_CHARS) (\<lambda>a.
        rbind read_u16 (\<lambda>p.
        rbind read_varint (\<lambda>n.
        rbind (rlift (next_state_try_from n)) (\<lambda>s.
        rreturn \<lparr>protocol_version = v, server_address = a, server_port = p, next_state = s\<rparr>)))))\<rparr>"

subsection \<open>Status\<close>

definition MAX_STATUS_JSON_CHARS :: usize where
  "MAX_STATUS_JSON_CHARS = 32767"

record status_response =
  status_json :: rstring

record ping_request =
  ping_payload :: i64

record pong_response =
  pong_payload :: i64

definition StatusRequest :: "unit packet" where
  "StatusRequest =
     \<lparr>ID = 0x00, STATE = Status, DIRECTION = Serverbound,
      encode_body = (\<lambda>_. ([], Inr ())), decode_body = rreturn ()\<rparr>"

definition StatusResponse :: "status_response packet" where
  "StatusResponse =
     \<lparr>ID = 0x00, STATE = Status, DIRECTION = Clientbound,
      encode_body = (\<lambda>p. (write_string (status_json p), Inr ())),
      decode_body = rbind (read_string MAX_STATUS_JSON_CHARS) (\<lambda>j. rreturn \<lparr>status_json = j\<rparr>)\<rparr>"

definition PingRequest :: "ping_request packet" where
  "PingRequest =
     \<lparr>ID = 0x01, STATE = Status, DIRECTION = Serverbound,
      encode_body = (\<lambda>p. (write_i64 (ping_payload p), Inr ())),
      decode_body = rbind read_i64 (\<lambda>v. rreturn \<lparr>ping_payload = v\<rparr>)\<rparr>"

definition PongResponse :: "pong_response packet" where
  "PongResponse =
     \<lparr>ID = 0x01, STATE = Status, DIRECTION = Clientbound,
      encode_body = (\<lambda>p. (write_i64 (pong_payload p), Inr ())),
      decode_body = rbind read_i64 (\<lambda>v. rreturn \<lparr>pong_payload = v\<rparr>)\<rparr>"

subsection \<open>Login\<close>

definition MAX_DISCONNECT_REASON_CHARS :: usize where
  "MAX_DISCONNECT_REASON_CHARS = 262144"

definition MAX_USERNAME_CHARS :: usize where
  "MAX_USERNAME_CHARS = 16"

definition MAX_PROPERTY_NAME_CHARS :: usize where
  "MAX_PROPERTY_NAME_CHARS = 64"

definition MAX_PROPERTY_VALUE_CHARS :: usize where
  "MAX_PROPERTY_VALUE_CHARS = 32767"

definition MAX_SIGNATURE_CHARS :: usize where
  "MAX_SIGNATURE_CHARS = 1024"

definition MAX_PROFILE_PROPERTIES :: usize where
  "MAX_PROFILE_PROPERTIES = 16"

record login_disconnect =
  reason :: rstring

definition from_component :: "json_printer \<Rightarrow> text_component \<Rightarrow> protocol_error + login_disconnect" where
  "from_component to_string c =
     (case to_string (json_of_text c) of
        Inl e \<Rightarrow> Inl (Json e)
      | Inr s \<Rightarrow> Inr \<lparr>reason = s\<rparr>)"

definition LoginDisconnect :: "login_disconnect packet" where
  "LoginDisconnect =
     \<lparr>ID = 0x00, STATE = Login, DIRECTION = Clientbound,
      encode_body = (\<lambda>p. (write_string (reason p), Inr ())),
      decode_body = rbind (read_string MAX_DISCONNECT_REASON_CHARS) (\<lambda>s. rreturn \<lparr>reason = s\<rparr>)\<rparr>"

record profile_property =
  prop_name :: rstring
  prop_value :: rstring
  signature :: "rstring option"

definition property_encode_to :: "profile_property \<Rightarrow> byte list" where
  "property_encode_to p =
     write_string (prop_name p) @ write_string (prop_value p) @
     write_prefixed_optional (signature p) write_string"

definition property_decode_from :: "profile_property preader" where
  "property_decode_from =
     rbind (read_string MAX_PROPERTY_NAME_CHARS) (\<lambda>n.
     rbind (read_string MAX_PROPERTY_VALUE_CHARS) (\<lambda>v.
     rbind (read_prefixed_optional (read_string MAX_SIGNATURE_CHARS)) (\<lambda>s.
     rreturn \<lparr>prop_name = n, prop_value = v, signature = s\<rparr>)))"

record game_profile =
  profile_uuid :: u128
  username :: rstring
  properties :: "profile_property list"

definition profile_encode_to :: "game_profile \<Rightarrow> byte list" where
  "profile_encode_to p =
     write_uuid (profile_uuid p) @ write_string (username p) @
     write_prefixed_array (properties p) property_encode_to"

definition profile_decode_from :: "game_profile preader" where
  "profile_decode_from =
     rbind read_uuid (\<lambda>u.
     rbind (read_string MAX_USERNAME_CHARS) (\<lambda>n.
     rbind (read_prefixed_array MAX_PROFILE_PROPERTIES property_decode_from) (\<lambda>ps.
     rreturn \<lparr>profile_uuid = u, username = n, properties = ps\<rparr>)))"

record login_start =
  ls_name :: rstring
  ls_uuid :: u128

definition LoginStart :: "login_start packet" where
  "LoginStart =
     \<lparr>ID = 0x00, STATE = Login, DIRECTION = Serverbound,
      encode_body = (\<lambda>p. (write_string (ls_name p) @ write_uuid (ls_uuid p), Inr ())),
      decode_body =
        rbind (read_string MAX_USERNAME_CHARS) (\<lambda>n.
        rbind read_uuid (\<lambda>u. rreturn \<lparr>ls_name = n, ls_uuid = u\<rparr>))\<rparr>"

record set_compression_packet =
  sc_threshold :: i32

definition SetCompression :: "set_compression_packet packet" where
  "SetCompression =
     \<lparr>ID = 0x03, STATE = Login, DIRECTION = Clientbound,
      encode_body = (\<lambda>p. (write_varint (sc_threshold p), Inr ())),
      decode_body = rbind read_varint (\<lambda>v. rreturn \<lparr>sc_threshold = v\<rparr>)\<rparr>"

record login_success =
  profile :: game_profile
  session_id :: u128

definition LoginSuccess :: "login_success packet" where
  "LoginSuccess =
     \<lparr>ID = 0x02, STATE = Login, DIRECTION = Clientbound,
      encode_body = (\<lambda>p. (profile_encode_to (profile p) @ write_uuid (session_id p), Inr ())),
      decode_body =
        rbind profile_decode_from (\<lambda>g.
        rbind read_uuid (\<lambda>s. rreturn \<lparr>profile = g, session_id = s\<rparr>))\<rparr>"

definition LoginAcknowledged :: "unit packet" where
  "LoginAcknowledged =
     \<lparr>ID = 0x03, STATE = Login, DIRECTION = Serverbound,
      encode_body = (\<lambda>_. ([], Inr ())), decode_body = rreturn ()\<rparr>"

subsection \<open>The contract of a packet\<close>

locale packet_impl =
  field_codec "\<lambda>x. fst (encode_body P x)" "decode_body P" ok
  for P :: "'p packet" and ok :: "'p \<Rightarrow> bool" +
  assumes encode_total: "snd (encode_body P x) = Inr ()"

subsection \<open>What the wire can carry\<close>

definition handshake_ok :: "handshake \<Rightarrow> bool" where
  "handshake_ok p \<longleftrightarrow> string_ok MAX_SERVER_ADDRESS_CHARS (server_address p)"

definition status_response_ok :: "status_response \<Rightarrow> bool" where
  "status_response_ok p \<longleftrightarrow> string_ok MAX_STATUS_JSON_CHARS (status_json p)"

definition login_disconnect_ok :: "login_disconnect \<Rightarrow> bool" where
  "login_disconnect_ok p \<longleftrightarrow> string_ok MAX_DISCONNECT_REASON_CHARS (reason p)"

definition property_ok :: "profile_property \<Rightarrow> bool" where
  "property_ok p \<longleftrightarrow> string_ok MAX_PROPERTY_NAME_CHARS (prop_name p) \<and>
     string_ok MAX_PROPERTY_VALUE_CHARS (prop_value p) \<and>
     pred_option (string_ok MAX_SIGNATURE_CHARS) (signature p)"

definition profile_ok :: "game_profile \<Rightarrow> bool" where
  "profile_ok p \<longleftrightarrow> string_ok MAX_USERNAME_CHARS (username p) \<and> list_all property_ok (properties p) \<and>
     length (properties p) \<le> MAX_PROFILE_PROPERTIES"

definition login_start_ok :: "login_start \<Rightarrow> bool" where
  "login_start_ok p \<longleftrightarrow> string_ok MAX_USERNAME_CHARS (ls_name p)"

definition login_success_ok :: "login_success \<Rightarrow> bool" where
  "login_success_ok p \<longleftrightarrow> profile_ok (profile p)"

subsection \<open>Every packet meets it\<close>

lemma next_state_roundtrip [simp]: "next_state_try_from (next_state_code s) = Inr s"
  by (cases s) (simp_all add: next_state_try_from_def)

lemma next_state_try_from_Inr: "next_state_try_from v = Inr s \<longleftrightarrow> v = next_state_code s"
  by (cases s) (auto simp: next_state_try_from_def split: if_splits)

interpretation signature_field: field_codec "\<lambda>v. write_prefixed_optional v write_string"
  "read_prefixed_optional (read_string MAX_SIGNATURE_CHARS)"
  "pred_option (string_ok MAX_SIGNATURE_CHARS)"
  by (rule string_field.optional_field)

lemma property_extends [extend_intros]: "extends property_decode_from"
  unfolding property_decode_from_def by (intro extend_intros)

interpretation property_field: field_codec property_encode_to property_decode_from property_ok
proof unfold_locales
  show "property_decode_from (property_encode_to p @ rest) = Inr (p, rest)" if "property_ok p" for p rest
    using that by (simp add: property_decode_from_def property_encode_to_def property_ok_def reader_defs
        packet_field_simps signature_field.rd_wr)
qed (rule extendsD [OF property_extends])

interpretation properties_field: field_codec "\<lambda>xs. write_prefixed_array xs property_encode_to"
  "read_prefixed_array MAX_PROFILE_PROPERTIES property_decode_from"
  "\<lambda>xs. list_all property_ok xs \<and> length xs \<le> MAX_PROFILE_PROPERTIES \<and> length xs < 2 ^ 31"
  by (rule property_field.array_field)

lemma profile_extends [extend_intros]: "extends profile_decode_from"
  unfolding profile_decode_from_def by (intro extend_intros)

interpretation profile_field: field_codec profile_encode_to profile_decode_from profile_ok
proof unfold_locales
  show "profile_decode_from (profile_encode_to p @ rest) = Inr (p, rest)" if "profile_ok p" for p rest
    using that properties_field.rd_wr [of "properties p" rest]
    by (simp add: profile_decode_from_def profile_encode_to_def profile_ok_def reader_defs
        packet_field_simps MAX_PROFILE_PROPERTIES_def)
qed (rule extendsD [OF profile_extends])

lemmas packet_defs = Handshake_def StatusRequest_def StatusResponse_def PingRequest_def PongResponse_def
  LoginDisconnect_def LoginStart_def SetCompression_def LoginSuccess_def LoginAcknowledged_def

lemmas packet_ok_defs = handshake_ok_def status_response_ok_def login_disconnect_ok_def
  login_start_ok_def login_success_ok_def

lemma packet_implI:
  assumes "\<And>x rest. ok x \<Longrightarrow> decode_body P (fst (encode_body P x) @ rest) = Inr (x, rest)"
    and "extends (decode_body P)" "\<And>x. snd (encode_body P x) = Inr ()"
  shows "packet_impl P ok"
  using assms by unfold_locales (auto simp: extends_def)

lemma bodies_extend [extend_intros]:
  "extends (decode_body Handshake)" "extends (decode_body StatusRequest)"
  "extends (decode_body StatusResponse)" "extends (decode_body PingRequest)"
  "extends (decode_body PongResponse)" "extends (decode_body LoginDisconnect)"
  "extends (decode_body LoginStart)" "extends (decode_body SetCompression)"
  "extends (decode_body LoginSuccess)" "extends (decode_body LoginAcknowledged)"
  unfolding packet_defs packet.simps by (intro extend_intros)+

interpretation Handshake: packet_impl Handshake handshake_ok
  by (rule packet_implI) (simp_all add: bodies_extend, simp_all add: packet_defs packet_ok_defs
      reader_defs packet_field_simps)

interpretation StatusRequest: packet_impl StatusRequest "\<lambda>_. True"
  by (rule packet_implI) (simp_all add: bodies_extend, simp_all add: packet_defs reader_defs)

interpretation StatusResponse: packet_impl StatusResponse status_response_ok
  by (rule packet_implI) (simp_all add: bodies_extend, simp_all add: packet_defs packet_ok_defs
      reader_defs packet_field_simps)

interpretation PingRequest: packet_impl PingRequest "\<lambda>_. True"
  by (rule packet_implI) (simp_all add: bodies_extend, simp_all add: packet_defs reader_defs
      packet_field_simps)

interpretation PongResponse: packet_impl PongResponse "\<lambda>_. True"
  by (rule packet_implI) (simp_all add: bodies_extend, simp_all add: packet_defs reader_defs
      packet_field_simps)

interpretation LoginDisconnect: packet_impl LoginDisconnect login_disconnect_ok
  by (rule packet_implI) (simp_all add: bodies_extend, simp_all add: packet_defs packet_ok_defs
      reader_defs packet_field_simps)

interpretation LoginStart: packet_impl LoginStart login_start_ok
  by (rule packet_implI) (simp_all add: bodies_extend, simp_all add: packet_defs packet_ok_defs
      reader_defs packet_field_simps)

interpretation SetCompression: packet_impl SetCompression "\<lambda>_. True"
  by (rule packet_implI) (simp_all add: bodies_extend, simp_all add: packet_defs reader_defs
      packet_field_simps)

interpretation LoginSuccess: packet_impl LoginSuccess login_success_ok
  by (rule packet_implI) (simp_all add: bodies_extend, simp_all add: packet_defs packet_ok_defs
      reader_defs packet_field_simps profile_field.rd_wr)

interpretation LoginAcknowledged: packet_impl LoginAcknowledged "\<lambda>_. True"
  by (rule packet_implI) (simp_all add: bodies_extend, simp_all add: packet_defs reader_defs)

subsection \<open>Decoding never reports a transport failure\<close>

definition no_io :: "'a preader \<Rightarrow> bool" where
  "no_io r \<longleftrightarrow> (\<forall>src m. r src \<noteq> Inl (Io m))"

named_theorems no_io_intros \<open>readers that never return \<open>Io\<close>\<close>

lemma no_io_rbind [no_io_intros]: "no_io r \<Longrightarrow> (\<And>x. no_io (k x)) \<Longrightarrow> no_io (rbind r k)"
  by (auto simp: no_io_def rbind_def split: sum.splits)

lemma no_io_rreturn [no_io_intros]: "no_io (rreturn x)"
  by (simp add: no_io_def rreturn_def)

lemma no_io_next_state [no_io_intros]: "no_io (rlift (next_state_try_from n))"
  by (auto simp: no_io_def rlift_def next_state_try_from_def split: sum.splits if_splits)

lemma no_io_varint [no_io_intros]: "no_io read_varint"
  by (auto simp: no_io_def read_varint_spec split: list.splits)

lemma no_io_integers [no_io_intros]: "no_io read_u16" "no_io read_i64" "no_io read_uuid"
  by (auto simp: no_io_def read_u16_def read_i64_def read_uuid_def)

lemma no_io_string [no_io_intros]: "no_io (read_string m)"
  using no_io_varint
  by (auto simp: no_io_def read_string_def Let_def split: sum.splits option.splits if_splits)

lemma serverbound_no_io:
  "no_io (decode_body Handshake)" "no_io (decode_body PingRequest)" "no_io (decode_body LoginStart)"
  unfolding packet_defs packet.simps by (intro no_io_intros)+

subsection \<open>Properties\<close>

text \<open>
  For each of the ten packets, decoding the encoded body returns the packet and leaves what
  follows, for every packet whose strings and property list are within the field limits.
\<close>

theorem packet_bodies_roundtrip:
  "(handshake_ok h \<longrightarrow> decode_body Handshake (fst (encode_body Handshake h) @ rest) = Inr (h, rest)) \<and>
   decode_body StatusRequest (fst (encode_body StatusRequest ()) @ rest) = Inr ((), rest) \<and>
   (status_response_ok r \<longrightarrow>
      decode_body StatusResponse (fst (encode_body StatusResponse r) @ rest) = Inr (r, rest)) \<and>
   decode_body PingRequest (fst (encode_body PingRequest i) @ rest) = Inr (i, rest) \<and>
   decode_body PongResponse (fst (encode_body PongResponse o') @ rest) = Inr (o', rest) \<and>
   (login_disconnect_ok d \<longrightarrow>
      decode_body LoginDisconnect (fst (encode_body LoginDisconnect d) @ rest) = Inr (d, rest)) \<and>
   (login_start_ok s \<longrightarrow> decode_body LoginStart (fst (encode_body LoginStart s) @ rest) = Inr (s, rest)) \<and>
   decode_body SetCompression (fst (encode_body SetCompression c) @ rest) = Inr (c, rest) \<and>
   (login_success_ok u \<longrightarrow>
      decode_body LoginSuccess (fst (encode_body LoginSuccess u) @ rest) = Inr (u, rest)) \<and>
   decode_body LoginAcknowledged (fst (encode_body LoginAcknowledged ()) @ rest) = Inr ((), rest)"
  by (simp add: Handshake.rd_wr StatusRequest.rd_wr StatusResponse.rd_wr PingRequest.rd_wr
      PongResponse.rd_wr LoginDisconnect.rd_wr LoginStart.rd_wr SetCompression.rd_wr LoginSuccess.rd_wr
      LoginAcknowledged.rd_wr)

definition sample_success :: login_success where
  "sample_success =
     \<lparr>profile = \<lparr>profile_uuid = 7, username = [0x41],
        properties = [\<lparr>prop_name = [0x42], prop_value = [], signature = Some [0x43]\<rparr>]\<rparr>,
      session_id = 9\<rparr>"

lemma sample_success_ok: "login_success_ok sample_success"
  by (simp add: sample_success_def login_success_ok_def profile_ok_def property_ok_def string_ok_def
      MAX_BYTES_PER_CHAR_def MAX_USERNAME_CHARS_def MAX_PROPERTY_NAME_CHARS_def
      MAX_PROPERTY_VALUE_CHARS_def MAX_SIGNATURE_CHARS_def MAX_PROFILE_PROPERTIES_def)

theorem packet_bodies_roundtrip_witness:
  "login_success_ok sample_success \<and>
   decode_body LoginSuccess (fst (encode_body LoginSuccess sample_success) @ [5]) = Inr (sample_success, [5])"
  using packet_bodies_roundtrip [where u = sample_success and rest = "[5]"] sample_success_ok by blast

text \<open>
  A body cut short is never taken for a packet: decoding any strict prefix of an encoded
  serverbound body with fields fails, as does a truncated login success.
\<close>

theorem packet_bodies_truncated:
  "(handshake_ok h \<longrightarrow> strict_prefix p (fst (encode_body Handshake h)) \<longrightarrow>
      (\<exists>e. decode_body Handshake p = Inl e)) \<and>
   (strict_prefix p (fst (encode_body PingRequest i)) \<longrightarrow> (\<exists>e. decode_body PingRequest p = Inl e)) \<and>
   (login_start_ok s \<longrightarrow> strict_prefix p (fst (encode_body LoginStart s)) \<longrightarrow>
      (\<exists>e. decode_body LoginStart p = Inl e)) \<and>
   (login_success_ok u \<longrightarrow> strict_prefix p (fst (encode_body LoginSuccess u)) \<longrightarrow>
      (\<exists>e. decode_body LoginSuccess p = Inl e))"
  by (auto intro: Handshake.truncated PingRequest.truncated LoginStart.truncated LoginSuccess.truncated)

theorem packet_bodies_truncated_witness:
  "\<exists>e. decode_body PingRequest [0, 0, 0] = Inl e"
proof -
  have "strict_prefix [0, 0, 0] (fst (encode_body PingRequest \<lparr>ping_payload = 5\<rparr>))"
    by (simp add: PingRequest_def write_i64_def eval_simps)
  then show ?thesis using packet_bodies_truncated [where p = "[0, 0, 0]"] by blast
qed

text \<open>
  Within a state and a direction a packet ID names one packet: the ten triples of ID, state
  and direction are different.
\<close>

theorem packet_ids_unique:
  "distinct
     [(ID Handshake, STATE Handshake, DIRECTION Handshake),
      (ID StatusRequest, STATE StatusRequest, DIRECTION StatusRequest),
      (ID StatusResponse, STATE StatusResponse, DIRECTION StatusResponse),
      (ID PingRequest, STATE PingRequest, DIRECTION PingRequest),
      (ID PongResponse, STATE PongResponse, DIRECTION PongResponse),
      (ID LoginDisconnect, STATE LoginDisconnect, DIRECTION LoginDisconnect),
      (ID LoginStart, STATE LoginStart, DIRECTION LoginStart),
      (ID SetCompression, STATE SetCompression, DIRECTION SetCompression),
      (ID LoginSuccess, STATE LoginSuccess, DIRECTION LoginSuccess),
      (ID LoginAcknowledged, STATE LoginAcknowledged, DIRECTION LoginAcknowledged)]"
  by (simp add: packet_defs)

text \<open>
  A decoded handshake has a valid address of at most three bytes per permitted character, and
  a next-state field other than 1, 2 or 3 is the error \<open>InvalidNextState\<close> with that value.
\<close>

theorem handshake_decoded:
  "(decode_body Handshake src = Inr (h, rest) \<longrightarrow> handshake_ok h) \<and>
   (handshake_ok h \<longrightarrow> n \<notin> {1, 2, 3} \<longrightarrow>
      decode_body Handshake (write_varint (protocol_version h) @ write_string (server_address h) @
        write_u16 (server_port h) @ write_varint n @ rest) = Inl (InvalidNextState n))"
  by (auto simp: Handshake_def reader_defs handshake_ok_def packet_field_simps next_state_try_from_def
      split: sum.splits dest: read_string_ok)

theorem handshake_decoded_witness:
  "decode_body Handshake (write_varint 776 @ write_string [] @ write_u16 0 @ write_varint 4 @ []) =
     Inl (InvalidNextState 4)"
  using handshake_decoded [where h = "\<lparr>protocol_version = 776, server_address = [], server_port = 0,
      next_state = NS_Status\<rparr>" and n = 4 and rest = "[]"]
  by (simp add: handshake_ok_def string_ok_def)

end
