(* ===== verification/Codec.thy ===== *)
theory Codec
  imports Packets
begin

text \<open>
  \<open>crates/protocol/src/codec.rs\<close>: framing and compression. \<open>flate2\<close> is a parameter: \<open>deflate\<close> is
  what a \<open>ZlibEncoder\<close> produces for a buffer, and \<open>inflate\<close> the bytes a \<open>ZlibDecoder\<close> yields for one
  and the error that ends them, if any. What the codec relies on is that the two are lossless,
  \<open>zlib_lossless\<close>, the documented purpose of the format. \<open>Read::take\<close> and \<open>Read::read_to_end\<close> are
  the standard library's and are modelled by \<open>read_to_end_take\<close>.

  \<open>codec_decode\<close> returns the result, what is left in the read buffer and the capacity it asked for ahead
  of any data: of \<open>BytesMut::reserve\<close> for a frame that is incomplete, of \<open>Vec::with_capacity\<close> for one that
  is inflated (\<open>decompress\<close> returns that capacity beside its result); \<open>codec_encode\<close> the result, the codec and the bytes appended to \<open>dst\<close>.
\<close>

type_synonym deflater = "byte list \<Rightarrow> io_error + byte list"
type_synonym inflater = "byte list \<Rightarrow> byte list \<times> io_error option"

definition zlib_lossless :: "deflater \<Rightarrow> inflater \<Rightarrow> bool" where
  "zlib_lossless deflate inflate \<longleftrightarrow> (\<forall>bs z. deflate bs = Inr z \<longrightarrow> inflate z = (bs, None))"

definition read_to_end_take :: "usize \<Rightarrow> byte list \<times> io_error option \<Rightarrow> io_error + byte list" where
  "read_to_end_take limit stream =
     (case stream of (bs, err) \<Rightarrow>
        if limit \<le> length bs then Inr (take limit bs)
        else (case err of None \<Rightarrow> Inr bs | Some e \<Rightarrow> Inl e))"

subsection \<open>The codec\<close>

definition MAX_PACKET_SIZE :: usize where
  "MAX_PACKET_SIZE = 2097151"

definition MAX_SPECULATIVE_RESERVE :: usize where
  "MAX_SPECULATIVE_RESERVE = 8 * 1024"

record raw_packet =
  raw_id :: i32
  raw_body :: "byte list"

definition decode_as :: "'p packet \<Rightarrow> raw_packet \<Rightarrow> protocol_error + 'p" where
  "decode_as P raw =
     (case decode_body P (raw_body raw) of
        Inl e \<Rightarrow> Inl e
      | Inr (p, rest) \<Rightarrow> if rest \<noteq> [] then Inl (TrailingBytes (length rest)) else Inr p)"

record packet_codec =
  scratch :: "byte list"
  compression_threshold :: "i32 option"
  compressed :: "byte list"

definition codec_new :: packet_codec where
  "codec_new = \<lparr>scratch = [], compression_threshold = None, compressed = []\<rparr>"

definition set_compression :: "i32 \<Rightarrow> packet_codec \<Rightarrow> packet_codec" where
  "set_compression threshold c =
     c\<lparr>compression_threshold := (if sint threshold < 0 then None else Some threshold)\<rparr>"

definition decompress :: "inflater \<Rightarrow> byte list \<Rightarrow> i32 \<Rightarrow> (protocol_error + byte list) \<times> usize" where
  "decompress inflate frame threshold =
     (case read_varint frame of
        Inl e \<Rightarrow> (Inl e, 0)
      | Inr (declared, frame) \<Rightarrow>
          (case usize_try_from_i32 declared of
             None \<Rightarrow> (Inl (NegativeLength declared), 0)
           | Some data_length \<Rightarrow>
               if data_length = 0 then (Inr frame, 0)
               else if data_length > MAX_PACKET_SIZE then
                 (Inl (FrameTooLarge data_length MAX_PACKET_SIZE), 0)
               else if data_length < usize_of_i32 threshold then
                 (Inl (CompressedBelowThreshold data_length threshold), 0)
               else
                 (case read_to_end_take (data_length + 1) (inflate frame) of
                    Inl e \<Rightarrow> Inl (Decompression e)
                  | Inr out \<Rightarrow>
                      if length out \<noteq> data_length then
                        Inl (CompressedSizeMismatch data_length (length out))
                      else Inr out,
                  min data_length MAX_SPECULATIVE_RESERVE)))"

definition codec_decode ::
    "inflater \<Rightarrow> packet_codec \<Rightarrow> byte list \<Rightarrow> (protocol_error + raw_packet option) \<times> byte list \<times> usize" where
  "codec_decode inflate c src =
     (case read_varint_slice src of
        Inl e \<Rightarrow> (Inl e, src, 0)
      | Inr None \<Rightarrow> (Inr None, src, 0)
      | Inr (Some (declared, prefix_len)) \<Rightarrow>
          (case usize_try_from_i32 declared of
             None \<Rightarrow> (Inl (NegativeLength declared), src, 0)
           | Some body_len \<Rightarrow>
               if body_len > MAX_PACKET_SIZE then
                 (Inl (FrameTooLarge body_len MAX_PACKET_SIZE), src, 0)
               else
                 (let frame_len = prefix_len + body_len in
                   if length src < frame_len then
                     (Inr None, src, min (frame_len - length src) MAX_SPECULATIVE_RESERVE)
                   else
                     (let frame = drop prefix_len (take frame_len src);
                          src = drop frame_len src in
                       (case (case compression_threshold c of
                                None \<Rightarrow> (Inr frame, 0)
                              | Some threshold \<Rightarrow> decompress inflate frame threshold) of
                          (Inl e, k) \<Rightarrow> (Inl e, src, k)
                        | (Inr bs, k) \<Rightarrow>
                            (case read_varint bs of
                               Inl e \<Rightarrow> (Inl e, src, k)
                             | Inr (pid, rest) \<Rightarrow>
                                 (Inr (Some \<lparr>raw_id = pid, raw_body = rest\<rparr>), src, k)))))))"

definition codec_encode ::
    "deflater \<Rightarrow> 'p packet \<Rightarrow> packet_codec \<Rightarrow> 'p \<Rightarrow> (protocol_error + unit) \<times> packet_codec \<times> byte list" where
  "codec_encode deflate P c item =
     (case encode_body P item of (written, result) \<Rightarrow>
       let buf = write_varint (ID P) @ written;
           c = c\<lparr>scratch := buf\<rparr>;
           len = length buf
       in (case result of
             Inl e \<Rightarrow> (Inl e, c, [])
           | Inr _ \<Rightarrow>
               if len > MAX_PACKET_SIZE then (Inl (FrameTooLarge len MAX_PACKET_SIZE), c, [])
               else
                 (case compression_threshold c of
                    None \<Rightarrow> (Inr (), c, write_varint (i32_of_usize len) @ buf)
                  | Some threshold \<Rightarrow>
                      if len < usize_of_i32 threshold then
                        (Inr (), c, write_varint (i32_of_usize (1 + len)) @ write_varint 0 @ buf)
                      else
                        (case deflate buf of
                           Inl e \<Rightarrow> (Inl (Io e), c\<lparr>compressed := []\<rparr>, [])
                         | Inr z \<Rightarrow>
                             (Inr (), c\<lparr>compressed := z\<rparr>,
                              write_varint (i32_of_usize (varint_len (i32_of_usize len) + length z)) @
                              write_varint (i32_of_usize len) @ z)))))"

subsection \<open>One frame\<close>

text \<open>What the decoder makes of the payload of a complete frame.\<close>

definition open_payload :: "inflater \<Rightarrow> i32 option \<Rightarrow> byte list \<Rightarrow> protocol_error + raw_packet" where
  "open_payload inflate t payload =
     (case (case t of None \<Rightarrow> Inr payload | Some threshold \<Rightarrow> fst (decompress inflate payload threshold)) of
        Inl e \<Rightarrow> Inl e
      | Inr b \<Rightarrow>
          (case read_varint b of
             Inl e \<Rightarrow> Inl e
           | Inr (pid, rest) \<Rightarrow> Inr \<lparr>raw_id = pid, raw_body = rest\<rparr>))"

text \<open>What it reserves for it.\<close>

definition payload_reserve :: "inflater \<Rightarrow> i32 option \<Rightarrow> byte list \<Rightarrow> usize" where
  "payload_reserve inflate t payload =
     (case t of None \<Rightarrow> 0 | Some threshold \<Rightarrow> snd (decompress inflate payload threshold))"

lemma payload_reserve_le: "payload_reserve inflate t payload \<le> MAX_SPECULATIVE_RESERVE"
  by (auto simp: payload_reserve_def decompress_def split: option.splits sum.splits)

lemma read_varint_slice_write [simp]:
  "read_varint_slice (write_varint v @ rest) = Inr (Some (v, varint_len v))"
  by (simp add: read_varint_slice_eq)

text \<open>A frame that has arrived in full.\<close>

lemma codec_decode_complete:
  assumes "read_varint_slice src = Inr (Some (declared, k))" "usize_try_from_i32 declared = Some n"
    and "n \<le> MAX_PACKET_SIZE" "k + n \<le> length src"
  shows "codec_decode inflate c src =
     (map_sum id Some (open_payload inflate (compression_threshold c) (take n (drop k src))),
      drop (k + n) src, payload_reserve inflate (compression_threshold c) (take n (drop k src)))"
proof -
  have "drop k (take (k + n) src) = take n (drop k src)"
    by (simp add: drop_take)
  with assms show ?thesis
    by (simp add: codec_decode_def open_payload_def payload_reserve_def Let_def
        split: sum.splits option.splits prod.splits)
qed

lemma codec_decode_frame:
  assumes "length payload < 2 ^ 31"
  shows "codec_decode inflate c (write_varint (i32_of_usize (length payload)) @ payload @ rest) =
     (if length payload \<le> MAX_PACKET_SIZE then
        (map_sum id Some (open_payload inflate (compression_threshold c) payload), rest,
         payload_reserve inflate (compression_threshold c) payload)
      else (Inl (FrameTooLarge (length payload) MAX_PACKET_SIZE),
            write_varint (i32_of_usize (length payload)) @ payload @ rest, 0))"
proof (cases "length payload \<le> MAX_PACKET_SIZE")
  case True
  then show ?thesis
    using assms
    by (simp add: usize_try_from_of_usize codec_decode_complete [where declared = "i32_of_usize (length payload)"
          and k = "varint_len (i32_of_usize (length payload))" and n = "length payload"])
qed (use assms in \<open>simp add: codec_decode_def usize_try_from_of_usize\<close>)

text \<open>What the encoder appends is always one such frame.\<close>

lemma codec_encode_frame:
  assumes "codec_encode deflate P c x = (Inr (), c', bs)"
  obtains payload where "bs = write_varint (i32_of_usize (length payload)) @ payload"
    and "compression_threshold c' = compression_threshold c"
    and "length (write_varint (ID P) @ fst (encode_body P x)) \<le> MAX_PACKET_SIZE"
    and "case compression_threshold c of
       None \<Rightarrow> payload = write_varint (ID P) @ fst (encode_body P x)
     | Some t \<Rightarrow>
         if length (write_varint (ID P) @ fst (encode_body P x)) < usize_of_i32 t
         then payload = write_varint 0 @ write_varint (ID P) @ fst (encode_body P x)
         else \<exists>z. deflate (write_varint (ID P) @ fst (encode_body P x)) = Inr z \<and>
                payload = write_varint (i32_of_usize (length (write_varint (ID P) @ fst (encode_body P x)))) @ z"
proof -
  have "varint_len 0 = 1" by (simp add: varint_len_def)
  with assms show thesis
    by (auto simp: codec_encode_def Let_def split: prod.splits sum.splits if_splits option.splits
        intro!: that)
qed

lemma codec_encode_succeeds:
  assumes "snd (encode_body P x) = Inr ()" "length (write_varint (ID P) @ fst (encode_body P x)) \<le> MAX_PACKET_SIZE"
    and "deflate (write_varint (ID P) @ fst (encode_body P x)) = Inr z"
  shows "\<exists>c' bs. codec_encode deflate P c x = (Inr (), c', bs)"
  using assms
  by (cases "encode_body P x") (auto simp: codec_encode_def Let_def split: option.splits)

lemma decompress_written:
  assumes "zlib_lossless deflate inflate" "deflate buf = Inr z" "0 < length buf"
    and "length buf \<le> MAX_PACKET_SIZE" "usize_of_i32 t \<le> length buf"
  shows "fst (decompress inflate (write_varint (i32_of_usize (length buf)) @ z) t) = Inr buf"
proof -
  have "inflate z = (buf, None)" using assms(1,2) by (simp add: zlib_lossless_def)
  moreover have "length buf < 2 ^ 31" using assms(4) by (simp add: MAX_PACKET_SIZE_def)
  ultimately show ?thesis
    using assms(3-5) by (simp add: decompress_def usize_try_from_of_usize read_to_end_take_def)
qed

lemma open_payload_encoded:
  fixes P :: "'p packet" and x :: 'p
  defines "buf \<equiv> write_varint (ID P) @ fst (encode_body P x)"
  assumes "zlib_lossless deflate inflate" "length buf \<le> MAX_PACKET_SIZE"
    and "case t of None \<Rightarrow> payload = buf
       | Some t \<Rightarrow> if length buf < usize_of_i32 t then payload = write_varint 0 @ buf
           else \<exists>z. deflate buf = Inr z \<and> payload = write_varint (i32_of_usize (length buf)) @ z"
  shows "open_payload inflate t payload = Inr \<lparr>raw_id = ID P, raw_body = fst (encode_body P x)\<rparr>"
proof -
  have pos: "0 < length buf" by (simp add: buf_def)
  have read: "read_varint buf = Inr (ID P, fst (encode_body P x))" by (simp add: buf_def)
  show ?thesis
    using assms(4) decompress_written [OF assms(2) _ pos assms(3)]
    by (auto simp: open_payload_def decompress_def usize_try_from_i32_def read
        split: option.splits if_splits)
qed

subsection \<open>Any input\<close>

text \<open>The three outcomes of a decode: the prefix settles it, the frame is incomplete, or complete.\<close>

lemma codec_decode_cases [case_names wait bad incomplete too_large negative complete]:
  obtains "read_varint_slice src = Inr None" "codec_decode inflate c src = (Inr None, src, 0)"
  | e where "read_varint_slice src = Inl e" "codec_decode inflate c src = (Inl e, src, 0)"
  | d k n where "read_varint_slice src = Inr (Some (d, k))" "usize_try_from_i32 d = Some n"
      "n \<le> MAX_PACKET_SIZE" "length src < k + n"
      "codec_decode inflate c src = (Inr None, src, min (k + n - length src) MAX_SPECULATIVE_RESERVE)"
  | d k n where "read_varint_slice src = Inr (Some (d, k))" "usize_try_from_i32 d = Some n"
      "MAX_PACKET_SIZE < n" "codec_decode inflate c src = (Inl (FrameTooLarge n MAX_PACKET_SIZE), src, 0)"
  | d k where "read_varint_slice src = Inr (Some (d, k))" "usize_try_from_i32 d = None"
      "codec_decode inflate c src = (Inl (NegativeLength d), src, 0)"
  | d k n where "read_varint_slice src = Inr (Some (d, k))" "usize_try_from_i32 d = Some n"
      "n \<le> MAX_PACKET_SIZE" "k + n \<le> length src"
      "codec_decode inflate c src =
         (map_sum id Some (open_payload inflate (compression_threshold c) (take n (drop k src))),
          drop (k + n) src, payload_reserve inflate (compression_threshold c) (take n (drop k src)))"
proof (cases "read_varint_slice src")
  case (Inl e)
  then show ?thesis by (intro that(2)) (simp_all add: codec_decode_def)
next
  case (Inr r)
  show ?thesis
  proof (cases r)
    case None
    with Inr show ?thesis by (intro that(1)) (simp_all add: codec_decode_def)
  next
    case (Some p)
    obtain d k where p: "p = (d, k)" by (cases p)
    show ?thesis
    proof (cases "usize_try_from_i32 d")
      case None
      with Inr Some p show ?thesis by (intro that(5)) (simp_all add: codec_decode_def)
    next
      case n: (Some n)
      consider "MAX_PACKET_SIZE < n" | "n \<le> MAX_PACKET_SIZE" "length src < k + n"
        | "n \<le> MAX_PACKET_SIZE" "k + n \<le> length src" by linarith
      then show ?thesis
      proof cases
        case 1 with Inr Some p n show ?thesis by (intro that(4)) (simp_all add: codec_decode_def)
      next
        case 2 with Inr Some p n show ?thesis by (intro that(3)) (simp_all add: codec_decode_def)
      next
        case 3 with Inr Some p n show ?thesis
          by (intro that(6)) (simp_all add: codec_decode_complete)
      qed
    qed
  qed
qed

lemma codec_decode_extend:
  assumes "codec_decode inflate c src = (r, src', k)" "r \<noteq> Inr None"
  shows "codec_decode inflate c (src @ ys) = (r, src' @ ys, k)"
proof (cases rule: codec_decode_cases [where src = src and inflate = inflate and c = c])
  case (bad e)
  with assms read_varint_slice_extend(2) [OF bad(1), of ys] show ?thesis
    by (simp add: codec_decode_def)
next
  case (too_large d k n)
  with assms read_varint_slice_extend(1) [OF too_large(1), of ys] show ?thesis
    by (auto simp: codec_decode_def)
next
  case (negative d k)
  with assms read_varint_slice_extend(1) [OF negative(1), of ys] show ?thesis
    by (auto simp: codec_decode_def)
next
  case (complete d k n)
  with assms read_varint_slice_extend(1) [OF complete(1), of ys] show ?thesis
    by (auto simp: codec_decode_complete [OF _ complete(2,3)])
qed (use assms in auto)

lemma codec_decode_progress:
  assumes "codec_decode inflate c src = (Inr (Some p), src', k)"
  shows "length src' < length src"
proof (cases rule: codec_decode_cases [where src = src and inflate = inflate and c = c])
  case (complete d j n)
  then obtain rest where "read_varint src = Inr (d, rest)" "j = length src - length rest"
    by (auto simp: read_varint_slice_eq split: sum.splits if_splits)
  then have "0 < j" using read_varint_shrinks [of src d rest] by auto
  with complete assms show ?thesis by auto
qed (use assms in auto)

subsection \<open>A stream of frames\<close>

text \<open>
  How a framed reader drives the decoder: every complete frame of the buffer until it has to wait or
  an error ends the connection (\<open>frames\<close>), over the chunks in which the bytes arrive (\<open>receive\<close>).
\<close>

function frames :: "inflater \<Rightarrow> packet_codec \<Rightarrow> byte list \<Rightarrow>
    raw_packet list \<times> protocol_error option \<times> byte list" where
  "frames inflate c buf =
     (case codec_decode inflate c buf of
        (Inl e, rest, _) \<Rightarrow> ([], Some e, rest)
      | (Inr None, rest, _) \<Rightarrow> ([], None, rest)
      | (Inr (Some p), rest, _) \<Rightarrow>
          (case frames inflate c rest of (ps, e, rest') \<Rightarrow> (p # ps, e, rest')))"
  by pat_completeness auto
termination
  by (relation "measure (\<lambda>(_, _, buf). length buf)") (auto dest: codec_decode_progress [OF sym])

declare frames.simps [simp del]

fun receive :: "inflater \<Rightarrow> packet_codec \<Rightarrow> byte list \<Rightarrow> byte list list \<Rightarrow>
    raw_packet list \<times> protocol_error option" where
  "receive inflate c buf [] = ([], None)"
| "receive inflate c buf (chunk # chunks) =
     (case frames inflate c (buf @ chunk) of
        (ps, Some e, _) \<Rightarrow> (ps, Some e)
      | (ps, None, rest) \<Rightarrow>
          (case receive inflate c rest chunks of (ps', e) \<Rightarrow> (ps @ ps', e)))"

lemma codec_decode_wait: "codec_decode inflate c src = (Inr None, src', k) \<Longrightarrow> src' = src"
  by (cases rule: codec_decode_cases [where src = src and inflate = inflate and c = c])
     (auto simp: map_sum_def split: sum.splits)

lemma frames_extend:
  "frames inflate c buf = (ps, e, rest) \<Longrightarrow>
     frames inflate c (buf @ ys) =
       (case e of
          Some e' \<Rightarrow> (ps, Some e', rest @ ys)
        | None \<Rightarrow> (case frames inflate c (rest @ ys) of (ps', e', rest') \<Rightarrow> (ps @ ps', e', rest')))"
proof (induction inflate c buf arbitrary: ps rule: frames.induct)
  case (1 inflate c buf)
  obtain r src' k where d: "codec_decode inflate c buf = (r, src', k)" by (cases "codec_decode inflate c buf")
  consider e' where "r = Inl e'" | "r = Inr None" | p where "r = Inr (Some p)" by (cases r) auto
  then show ?case
  proof cases
    case 1
    with d codec_decode_extend [OF d, of ys] "1.prems" show ?thesis
      by (auto simp: frames.simps [of inflate c buf] frames.simps [of inflate c "buf @ ys"])
  next
    case 2
    with d codec_decode_wait [of inflate c buf src' k] "1.prems" show ?thesis
      by (auto simp: frames.simps [of inflate c buf] split: prod.splits)
  next
    case (3 p)
    obtain qs where q: "frames inflate c src' = (qs, e, rest)" "ps = p # qs"
      using "1.prems" d 3 by (auto simp: frames.simps [of inflate c buf] split: prod.splits)
    with "1.IH" [OF d [symmetric] 3 refl refl q(1)] 3 codec_decode_extend [OF d, of ys]
    show ?thesis
      by (auto simp: frames.simps [of inflate c "buf @ ys"] split: option.splits prod.splits)
  qed
qed

lemma frames_rest_waits:
  "frames inflate c buf = (ps, None, rest) \<Longrightarrow> frames inflate c rest = ([], None, rest)"
proof (induction inflate c buf arbitrary: ps rule: frames.induct)
  case (1 inflate c buf)
  obtain r src' k where d: "codec_decode inflate c buf = (r, src', k)" by (cases "codec_decode inflate c buf")
  consider e' where "r = Inl e'" | "r = Inr None" | p where "r = Inr (Some p)" by (cases r) auto
  then show ?case
  proof cases
    case 1
    with d "1.prems" show ?thesis by (simp add: frames.simps [of inflate c buf])
  next
    case 2
    with d codec_decode_wait [of inflate c buf src' k] "1.prems" show ?thesis
      by (auto simp: frames.simps [of inflate c])
  next
    case (3 p)
    then obtain qs where "frames inflate c src' = (qs, None, rest)"
      using "1.prems" d by (auto simp: frames.simps [of inflate c buf] split: prod.splits)
    then show ?thesis using "1.IH" [OF d [symmetric] 3 refl refl] by blast
  qed
qed

lemma receive_frames:
  assumes "frames inflate c buf = ([], None, buf)"
  shows "receive inflate c buf chunks =
     (case frames inflate c (buf @ concat chunks) of (ps, e, _) \<Rightarrow> (ps, e))"
  using assms
proof (induction chunks arbitrary: buf)
  case (Cons chunk chunks)
  obtain ps e rest where f: "frames inflate c (buf @ chunk) = (ps, e, rest)"
    by (cases "frames inflate c (buf @ chunk)")
  show ?case
  proof (cases e)
    case (Some e')
    then show ?thesis using f frames_extend [OF f, of "concat chunks"] by simp
  next
    case None
    with f have "frames inflate c rest = ([], None, rest)" by (simp add: frames_rest_waits)
    with None f show ?thesis
      using Cons.IH [of rest] frames_extend [OF f, of "concat chunks"] by (simp split: prod.splits)
  qed
qed simp

subsection \<open>Decoding what was encoded\<close>

lemma codec_decode_encoded:
  assumes "zlib_lossless deflate inflate" "packet_impl P ok" "ok x"
    and "codec_encode deflate P c x = (Inr (), c', bs)" "length bs < 2 ^ 31"
    and "compression_threshold d = compression_threshold c"
  shows "\<exists>payload. bs = write_varint (i32_of_usize (length payload)) @ payload \<and>
     (compression_threshold c = None \<longrightarrow> length payload \<le> MAX_PACKET_SIZE) \<and>
     (if length payload \<le> MAX_PACKET_SIZE
      then \<exists>raw k. codec_decode inflate d (bs @ rest) = (Inr (Some raw), rest, k) \<and>
             k \<le> MAX_SPECULATIVE_RESERVE \<and> raw_id raw = ID P \<and> decode_as P raw = Inr x
      else codec_decode inflate d (bs @ rest) =
             (Inl (FrameTooLarge (length payload) MAX_PACKET_SIZE), bs @ rest, 0))"
proof -
  let ?buf = "write_varint (ID P) @ fst (encode_body P x)"
  obtain payload where p: "bs = write_varint (i32_of_usize (length payload)) @ payload"
      "length ?buf \<le> MAX_PACKET_SIZE"
      "case compression_threshold c of None \<Rightarrow> payload = ?buf
       | Some t \<Rightarrow> if length ?buf < usize_of_i32 t then payload = write_varint 0 @ ?buf
           else \<exists>z. deflate ?buf = Inr z \<and> payload = write_varint (i32_of_usize (length ?buf)) @ z"
    using assms(4) by (rule codec_encode_frame)
  have "decode_body P (fst (encode_body P x)) = Inr (x, [])"
    using packet_impl.axioms(1) [OF assms(2)] assms(3) by (rule field_codec.rd_wr_exact)
  moreover have "length payload < 2 ^ 31" using assms(5) p(1) by simp
  ultimately show ?thesis
    using p(1) assms(6) codec_decode_frame [of payload inflate d rest] p(2,3)
      open_payload_encoded [OF assms(1) p(2,3)]
    by (intro exI [of _ payload]) (auto simp: decode_as_def payload_reserve_le split: option.splits)
qed

subsection \<open>Properties\<close>

text \<open>
  C2: in every mode of the codec (no compression, below the threshold, compressed) the decoder,
  given what the encoder appended for a packet and any bytes after it, yields the packet's ID and
  body and leaves exactly those bytes, and \<open>decode_as\<close> returns the packet. The one exception is
  written out: a payload longer than \<open>MAX_PACKET_SIZE\<close>, which cannot happen without compression, is
  rejected. The contents of the scratch buffers, on either side, play no part.
\<close>

theorem codec_roundtrip:
  assumes "zlib_lossless deflate inflate" "packet_impl P ok" "ok x"
    and "codec_encode deflate P c x = (Inr (), c', bs)" "length bs < 2 ^ 31"
    and "compression_threshold d = compression_threshold c"
  shows "\<exists>payload. bs = write_varint (i32_of_usize (length payload)) @ payload \<and>
     (compression_threshold c = None \<longrightarrow> length payload \<le> MAX_PACKET_SIZE) \<and>
     (if length payload \<le> MAX_PACKET_SIZE
      then \<exists>raw k. codec_decode inflate d (bs @ rest) = (Inr (Some raw), rest, k) \<and>
             k \<le> MAX_SPECULATIVE_RESERVE \<and> raw_id raw = ID P \<and> decode_as P raw = Inr x
      else codec_decode inflate d (bs @ rest) =
             (Inl (FrameTooLarge (length payload) MAX_PACKET_SIZE), bs @ rest, 0))"
  using assms by (rule codec_decode_encoded)

text \<open>Stored blocks: a compressor that copies, for the concrete instances below.\<close>

definition stored_deflate :: deflater where
  "stored_deflate bs = Inr bs"

definition stored_inflate :: inflater where
  "stored_inflate bs = (bs, None)"

lemma stored_lossless: "zlib_lossless stored_deflate stored_inflate"
  by (simp add: zlib_lossless_def stored_deflate_def stored_inflate_def)

lemma codec_encode_ping:
  "codec_encode stored_deflate PingRequest (set_compression 0 codec_new) \<lparr>ping_payload = 5\<rparr> =
     (Inr (), \<lparr>scratch = [1, 0, 0, 0, 0, 0, 0, 0, 5], compression_threshold = Some 0,
        compressed = [1, 0, 0, 0, 0, 0, 0, 0, 5]\<rparr>,
      [10, 9, 1, 0, 0, 0, 0, 0, 0, 0, 5])"
  by (simp add: codec_encode_def PingRequest_def set_compression_def codec_new_def write_i64_def
      write_varint_def write_leb.simps PAYLOAD_MASK_def MAX_PACKET_SIZE_def usize_of_i32_def
      stored_deflate_def varint_len_def i32_of_usize_def Let_def eval_simps)

theorem codec_roundtrip_witness:
  "\<exists>raw k. codec_decode stored_inflate (set_compression 0 codec_new) [10, 9, 1, 0, 0, 0, 0, 0, 0, 0, 5, 7] =
       (Inr (Some raw), [7], k) \<and>
     raw_id raw = 1 \<and> decode_as PingRequest raw = Inr \<lparr>ping_payload = 5\<rparr>"
proof -
  obtain payload where p:
      "[10, 9, 1, 0, 0, 0, 0, 0, 0, 0, 5] = write_varint (i32_of_usize (length payload)) @ payload"
      "if length payload \<le> MAX_PACKET_SIZE
       then \<exists>raw k. codec_decode stored_inflate (set_compression 0 codec_new)
              ([10, 9, 1, 0, 0, 0, 0, 0, 0, 0, 5] @ [7]) = (Inr (Some raw), [7], k) \<and>
              k \<le> MAX_SPECULATIVE_RESERVE \<and> raw_id raw = ID PingRequest \<and> decode_as PingRequest raw = Inr \<lparr>ping_payload = 5\<rparr>
       else codec_decode stored_inflate (set_compression 0 codec_new)
              ([10, 9, 1, 0, 0, 0, 0, 0, 0, 0, 5] @ [7]) =
              (Inl (FrameTooLarge (length payload) MAX_PACKET_SIZE), [10, 9, 1, 0, 0, 0, 0, 0, 0, 0, 5] @ [7], 0)"
    using codec_roundtrip [OF stored_lossless PingRequest.packet_impl_axioms TrueI codec_encode_ping,
        of "set_compression 0 codec_new" "[7]"]
    by auto
  have "length payload \<le> 11" using arg_cong [OF p(1), of length] by simp
  with p(2) show ?thesis by (auto simp: MAX_PACKET_SIZE_def PingRequest_def)
qed

text \<open>
  C10: while a frame is incomplete the decoder waits: on every strict prefix of a frame, down to no
  bytes at all, it reports no packet and no error, keeps every byte, and asks for at most
  \<open>MAX_SPECULATIVE_RESERVE\<close> bytes of capacity however long the frame claims to be.
\<close>

theorem decoder_waits_for_frame:
  assumes "length payload \<le> MAX_PACKET_SIZE"
    and "strict_prefix p (write_varint (i32_of_usize (length payload)) @ payload)"
  shows "\<exists>k \<le> MAX_SPECULATIVE_RESERVE. codec_decode inflate c p = (Inr None, p, k)"
proof -
  let ?bs = "write_varint (i32_of_usize (length payload)) @ payload"
  obtain r src' k where d: "codec_decode inflate c p = (r, src', k)" by (cases "codec_decode inflate c p")
  obtain q where q: "q \<noteq> []" "?bs = p @ q" using assms(2) by (rule strict_prefix_split)
  have "length payload < 2 ^ 31" using assms(1) by (simp add: MAX_PACKET_SIZE_def)
  then have "fst (snd (codec_decode inflate c ?bs)) = []"
    using codec_decode_frame [of payload inflate c "[]"] assms(1) by simp
  then have "r = Inr None"
    using codec_decode_extend [OF d, of q] q by (cases "r = Inr None") auto
  with d show ?thesis
    by (cases rule: codec_decode_cases [where src = p and inflate = inflate and c = c])
       (auto simp: map_sum_def split: sum.splits)
qed

theorem decoder_waits_for_frame_witness:
  "\<exists>k \<le> MAX_SPECULATIVE_RESERVE. codec_decode stored_inflate codec_new [3, 0] = (Inr None, [3, 0], k)"
  by (rule decoder_waits_for_frame [of "[0, 1, 2]"])
     (simp_all add: MAX_PACKET_SIZE_def write_varint_def write_leb.simps PAYLOAD_MASK_def i32_of_usize_def)

text \<open>
  How TCP cuts the stream into chunks does not matter: the packets and the error that reach the
  connection are those of decoding the whole stream at once.
\<close>

theorem decoder_chunk_independent:
  "receive inflate c [] chunks = (case frames inflate c (concat chunks) of (ps, e, _) \<Rightarrow> (ps, e))"
proof -
  have "read_varint_slice [] = Inr None"
    by (simp add: read_varint_slice_eq read_varint_spec)
  then have "frames inflate c [] = ([], None, [])"
    by (simp add: frames.simps codec_decode_def)
  then show ?thesis using receive_frames by fastforce
qed

lemma read_varint_error: "read_varint src = Inl e \<Longrightarrow> e = UnexpectedEof \<or> e = VarIntTooLong 5"
  by (auto simp: read_varint_spec split: if_splits list.splits)

text \<open>
  What the decoder makes of the encoder's payload never claims to inflate beyond the limit: the encoder
  checked that length. So a frame of the encoder is \<open>FrameTooLarge\<close> only for its own length.
\<close>

lemma open_payload_not_large:
  assumes "payload = write_varint 0 @ buf \<or> payload = write_varint (i32_of_usize (length buf)) @ z"
    and "length buf \<le> MAX_PACKET_SIZE"
  shows "open_payload inflate (Some t) payload \<noteq> Inl (FrameTooLarge n m)"
proof -
  have "length buf < 2 ^ 31" using assms(2) by (simp add: MAX_PACKET_SIZE_def)
  moreover have "read_varint bs \<noteq> Inl (FrameTooLarge n m)" for bs using read_varint_error by blast
  moreover have "usize_try_from_i32 0 = Some 0" by (simp add: usize_try_from_i32_def)
  ultimately show ?thesis
    using assms
    by (auto simp: open_payload_def decompress_def usize_try_from_of_usize split: sum.splits if_splits)
qed

lemma encoded_frame_large:
  assumes "payload = write_varint 0 @ buf \<or> payload = write_varint (i32_of_usize (length buf)) @ z"
    and "length buf \<le> MAX_PACKET_SIZE" "length payload < 2 ^ 31" "compression_threshold c = Some t"
  shows "fst (codec_decode inflate c ((write_varint (i32_of_usize (length payload)) @ payload) @ rest)) =
      Inl (FrameTooLarge n MAX_PACKET_SIZE) \<longleftrightarrow> MAX_PACKET_SIZE < n \<and> n = length payload"
  using codec_decode_frame [OF assms(3), of inflate c rest] open_payload_not_large [OF assms(1,2)] assms(4)
  by (auto simp: map_sum_def split: sum.splits)

text \<open>
  C38: the encoder refuses a packet whose ID and body exceed \<open>MAX_PACKET_SIZE\<close>, but with compression on it
  checks neither the marker it adds below the threshold nor the compressed size. The packets that it
  encodes without error into a frame that a decoder refuses as too large are exactly these: below the
  threshold, those of \<open>MAX_PACKET_SIZE\<close> bytes; at or above it, those whose compressed form together with
  its length field is longer than \<open>MAX_PACKET_SIZE\<close>, which takes a large packet that does not compress.
\<close>

theorem encoder_oversized_frame:
  assumes "encode_body P x = (b, Inr ())" "buf = write_varint (ID P) @ b" "compression_threshold c = Some t"
    and "\<And>z. deflate buf = Inr z \<Longrightarrow> length z < 2 ^ 30"
  shows "(\<exists>c' bs. codec_encode deflate P c x = (Inr (), c', bs) \<and>
       fst (codec_decode inflate c' (bs @ rest)) = Inl (FrameTooLarge n MAX_PACKET_SIZE)) \<longleftrightarrow>
     length buf \<le> MAX_PACKET_SIZE \<and> MAX_PACKET_SIZE < n \<and>
     (if length buf < usize_of_i32 t then n = 1 + length buf
      else \<exists>z. deflate buf = Inr z \<and> n = varint_len (i32_of_usize (length buf)) + length z)"
proof (cases "length buf \<le> MAX_PACKET_SIZE")
  case True
  have one: "varint_len 0 = 1" by (simp add: varint_len_def)
  let ?c = "c\<lparr>scratch := buf\<rparr>"
  show ?thesis
  proof (cases "length buf < usize_of_i32 t")
    case small: True
    let ?payload = "write_varint 0 @ buf"
    have "codec_encode deflate P c x = (Inr (), ?c, write_varint (i32_of_usize (length ?payload)) @ ?payload)"
      using assms(1-3) True small one by (simp add: codec_encode_def Let_def)
    moreover have "length ?payload < 2 ^ 31" using True one by (simp add: MAX_PACKET_SIZE_def)
    ultimately show ?thesis
      using encoded_frame_large [OF _ True, of ?payload _ ?c t inflate rest n] assms(3) True small one by auto
  next
    case large: False
    show ?thesis
    proof (cases "deflate buf")
      case (Inl e)
      with assms(1-3) True large show ?thesis by (simp add: codec_encode_def Let_def)
    next
      case (Inr z)
      let ?payload = "write_varint (i32_of_usize (length buf)) @ z"
      have "codec_encode deflate P c x =
          (Inr (), ?c\<lparr>compressed := z\<rparr>, write_varint (i32_of_usize (length ?payload)) @ ?payload)"
        using assms(1-3) True large Inr by (simp add: codec_encode_def Let_def)
      moreover have "length ?payload < 2 ^ 31"
        using assms(4) [OF Inr] varint_len_bounds(3) [of "i32_of_usize (length buf)"]
        by (simp del: varint_len_bounds)
      ultimately show ?thesis
        using encoded_frame_large [OF _ True, of ?payload z "?c\<lparr>compressed := z\<rparr>" t inflate rest n]
          assms(3) True large Inr by auto
    qed
  qed
qed (use assms in \<open>simp add: codec_encode_def Let_def\<close>)

text \<open>With the default threshold and a compressor that finds nothing to save.\<close>

theorem encoder_oversized_frame_witness:
  "\<exists>c' bs. codec_encode stored_deflate StatusResponse (set_compression 256 codec_new)
       \<lparr>status_json = replicate 2097147 0x61\<rparr> = (Inr (), c', bs) \<and>
     fst (codec_decode stored_inflate c' (bs @ [])) = Inl (FrameTooLarge (MAX_PACKET_SIZE + 3) MAX_PACKET_SIZE)"
proof -
  let ?b = "write_string (replicate 2097147 0x61)"
  have len: "length (write_varint (ID StatusResponse) @ ?b) = MAX_PACKET_SIZE"
    by (simp add: StatusResponse_def write_string_def varint_len_def MAX_PACKET_SIZE_def i32_of_usize_def)
  have "encode_body StatusResponse \<lparr>status_json = replicate 2097147 0x61\<rparr> = (?b, Inr ())"
    by (simp add: StatusResponse_def)
  moreover have "compression_threshold (set_compression 256 codec_new) = Some 256"
    by (simp add: set_compression_def codec_new_def)
  moreover have "length z < 2 ^ 30" if "stored_deflate (write_varint (ID StatusResponse) @ ?b) = Inr z" for z
    using that len by (auto simp: stored_deflate_def MAX_PACKET_SIZE_def)
  moreover have "varint_len (i32_of_usize MAX_PACKET_SIZE) = 3"
    by (simp add: varint_len_def i32_of_usize_def MAX_PACKET_SIZE_def)
  moreover have "\<not> MAX_PACKET_SIZE < usize_of_i32 256" by (simp add: MAX_PACKET_SIZE_def usize_of_i32_def)
  ultimately show ?thesis
    using encoder_oversized_frame [of StatusResponse "\<lparr>status_json = replicate 2097147 0x61\<rparr>" ?b
        "write_varint (ID StatusResponse) @ ?b" "set_compression 256 codec_new" 256 stored_deflate stored_inflate "[]"
        "MAX_PACKET_SIZE + 3"] len
    by (simp add: stored_deflate_def)
qed

lemma decompress_bounds:
  assumes "fst (decompress inflate frame t) = Inr out"
  shows "length out \<le> max (length frame) MAX_PACKET_SIZE"
proof -
  have "length rest \<le> length frame" if "read_varint frame = Inr (v, rest)" for v rest
    using read_varint_shrinks [OF that] by auto
  with assms show ?thesis
    by (fastforce simp: decompress_def split: sum.splits option.splits if_splits)
qed

lemma decompress_error: "fst (decompress inflate frame t) = Inl e \<Longrightarrow> (\<forall>m. e \<noteq> Io m)"
  by (auto simp: decompress_def dest: read_varint_error split: sum.splits option.splits if_splits)

lemma open_payload_bounds:
  assumes "open_payload inflate t payload = Inr raw"
  shows "length (raw_body raw) < max (length payload) MAX_PACKET_SIZE"
proof -
  obtain b where b: "read_varint b = Inr (raw_id raw, raw_body raw)"
      "length b \<le> max (length payload) MAX_PACKET_SIZE"
    using assms decompress_bounds
    by (fastforce simp: open_payload_def split: sum.splits option.splits)
  from read_varint_shrinks [OF b(1)] have "length (raw_body raw) < length b" by auto
  with b(2) show ?thesis by linarith
qed

lemma open_payload_error: "open_payload inflate t payload = Inl e \<Longrightarrow> (\<forall>m. e \<noteq> Io m)"
  by (auto simp: open_payload_def dest: read_varint_error decompress_error
      split: sum.splits option.splits)

lemma codec_decode_no_io:
  assumes "codec_decode inflate c src = (r, src', k)"
  shows "r \<noteq> Inl (Io m)"
proof (cases rule: codec_decode_cases [where src = src and inflate = inflate and c = c])
  case (bad e)
  then have "e \<noteq> Io m"
    by (auto simp: read_varint_slice_eq dest: read_varint_error split: sum.splits if_splits)
  with bad assms show ?thesis by auto
next
  case (complete d j n)
  with assms open_payload_error [of inflate "compression_threshold c" "take n (drop j src)"] show ?thesis
    by (cases "open_payload inflate (compression_threshold c) (take n (drop j src))") auto
qed (use assms in auto)

text \<open>
  C9: whatever the peer sends and however the compressor behaves, a decode consumes a prefix of the
  buffer, never yields a body of \<open>MAX_PACKET_SIZE\<close> bytes or more, never reserves more than
  \<open>MAX_SPECULATIVE_RESERVE\<close>, neither towards a frame that is incomplete nor for what a complete one
  claims to inflate to, and never reports \<open>Io\<close>, the variant logged as transport noise.
\<close>

theorem decoder_safe:
  "case codec_decode inflate c src of (r, src', k) \<Rightarrow>
     suffix src' src \<and> k \<le> MAX_SPECULATIVE_RESERVE \<and> (\<forall>m. r \<noteq> Inl (Io m)) \<and>
     (case r of Inr (Some raw) \<Rightarrow> length (raw_body raw) < MAX_PACKET_SIZE | _ \<Rightarrow> True)"
proof (cases rule: codec_decode_cases [where src = src and inflate = inflate and c = c])
  case (bad e)
  with codec_decode_no_io show ?thesis by fastforce
next
  case (complete d k n)
  let ?r = "open_payload inflate (compression_threshold c) (take n (drop k src))"
  have "length (raw_body raw) < MAX_PACKET_SIZE" if "?r = Inr raw" for raw
    using open_payload_bounds [OF that] complete(3) by simp
  with codec_decode_no_io [OF complete(5)] show ?thesis
    by (cases ?r) (auto simp: complete(5) suffix_drop payload_reserve_le)
qed simp_all

text \<open>
  Bytes after a packet's last field are an error: a body that decodes as a packet followed by
  anything more is rejected with the number of bytes left over, and the body alone is accepted.
\<close>

theorem decode_as_exact:
  assumes "packet_impl P ok" "ok x"
  shows "decode_as P \<lparr>raw_id = i, raw_body = fst (encode_body P x) @ ys\<rparr> =
     (if ys = [] then Inr x else Inl (TrailingBytes (length ys)))"
  using field_codec.rd_wr [OF packet_impl.axioms(1) [OF assms(1)] assms(2), of ys]
  by (simp add: decode_as_def)

theorem decode_as_exact_witness:
  "decode_as LoginSuccess \<lparr>raw_id = 2, raw_body = fst (encode_body LoginSuccess sample_success) @ [0]\<rparr> =
     Inl (TrailingBytes 1)"
  using decode_as_exact [OF LoginSuccess.packet_impl_axioms sample_success_ok, of 2 "[0]"] by simp

end
