(* ===== verification/ConnState.thy ===== *)
theory ConnState
  imports Codec
begin

text \<open>
  \<open>crates/net/src/error.rs\<close> and \<open>crates/net/src/state.rs\<close>: the errors of a connection and its state
  machine.
\<close>

datatype net_error =
    Protocol protocol_error
  | IllegalTransition state state
  | UnexpectedPacket state i32
  | DuplicateStatusRequest
  | InvalidUsername rstring
  | Timeout

fun is_transport_noise :: "net_error \<Rightarrow> bool" where
  "is_transport_noise Timeout = True"
| "is_transport_noise (Protocol (Io _)) = True"
| "is_transport_noise _ = False"

record connection_state =
  current :: state
  status_request_seen :: bool

definition state_new :: connection_state where
  "state_new = \<lparr>current = Handshaking, status_request_seen = False\<rparr>"

fun permitted :: "state \<Rightarrow> state \<Rightarrow> bool" where
  "permitted Handshaking Status = True"
| "permitted Handshaking Login = True"
| "permitted Login Configuration = True"
| "permitted _ _ = False"

definition transition :: "state \<Rightarrow> connection_state \<Rightarrow> net_error + connection_state" where
  "transition to s =
     (if \<not> permitted (current s) to then Inl (IllegalTransition (current s) to)
      else Inr (s\<lparr>current := to\<rparr>))"

definition mark_status_request_seen :: "connection_state \<Rightarrow> net_error + connection_state" where
  "mark_status_request_seen s =
     (if status_request_seen s then Inl DuplicateStatusRequest
      else Inr (s\<lparr>status_request_seen := True\<rparr>))"

subsection \<open>The machine as a relation\<close>

inductive state_step :: "connection_state \<Rightarrow> connection_state \<Rightarrow> bool" where
  move: "transition to s = Inr s' \<Longrightarrow> state_step s s'"
| mark: "mark_status_request_seen s = Inr s' \<Longrightarrow> state_step s s'"

inductive_cases state_stepE: "state_step s s'"

text \<open>The order in which the states can be visited; \<open>Status\<close> is a dead end.\<close>

fun state_rank :: "state \<Rightarrow> nat" where
  "state_rank Handshaking = 0"
| "state_rank Status = 1"
| "state_rank Login = 1"
| "state_rank Configuration = 2"
| "state_rank Play = 3"

lemma permitted_cases:
  "permitted a b \<longleftrightarrow> (a, b) \<in> {(Handshaking, Status), (Handshaking, Login), (Login, Configuration)}"
  by (cases a; cases b) simp_all

lemma transition_Inr: "transition to s = Inr s' \<longleftrightarrow> permitted (current s) to \<and> s' = s\<lparr>current := to\<rparr>"
  by (auto simp: transition_def)

lemma mark_Inr: "mark_status_request_seen s = Inr s' \<longleftrightarrow>
    \<not> status_request_seen s \<and> s' = s\<lparr>status_request_seen := True\<rparr>"
  by (auto simp: mark_status_request_seen_def)

lemma state_step_rank:
  "state_step s s' \<Longrightarrow> current s' = current s \<or> (permitted (current s) (current s') \<and>
     state_rank (current s') = Suc (state_rank (current s)))"
  by (auto elim!: state_stepE simp: transition_Inr mark_Inr permitted_cases)

text \<open>
  C25: from a fresh connection the state machine only ever takes the paths
  Handshaking to Status and Handshaking to Login to Configuration: whatever sequence of moves is
  attempted, \<open>Play\<close> is never reached, a connection in \<open>Status\<close> stays there (it cannot promote
  itself to \<open>Login\<close>), and \<open>Configuration\<close> is never left.
\<close>

theorem state_machine_paths:
  assumes "state_step\<^sup>*\<^sup>* state_new s" "state_step\<^sup>*\<^sup>* s s'"
  shows "current s \<noteq> Play \<and> state_rank (current s) \<le> state_rank (current s') \<and>
    (current s = Status \<longrightarrow> current s' = Status) \<and>
    (current s = Configuration \<longrightarrow> current s' = Configuration) \<and>
    (current s = Login \<longrightarrow> current s' \<in> {Login, Configuration})"
proof -
  have "current s \<noteq> Play"
    using assms(1)
    by (induction rule: rtranclp_induct)
       (auto simp: state_new_def permitted_cases dest!: state_step_rank)
  moreover have "state_rank (current s) \<le> state_rank (current s') \<and>
    (current s = Status \<longrightarrow> current s' = Status) \<and>
    (current s = Configuration \<longrightarrow> current s' = Configuration) \<and>
    (current s = Login \<longrightarrow> current s' \<in> {Login, Configuration})"
    using assms(2)
    by (induction rule: rtranclp_induct) (auto simp: permitted_cases dest!: state_step_rank)
  ultimately show ?thesis by simp
qed

theorem state_machine_paths_witness:
  "state_step\<^sup>*\<^sup>* state_new \<lparr>current = Login, status_request_seen = False\<rparr> \<and>
   state_step\<^sup>*\<^sup>* \<lparr>current = Login, status_request_seen = False\<rparr>
     \<lparr>current = Configuration, status_request_seen = False\<rparr> \<and>
   state_rank Login \<le> state_rank Configuration \<and> Configuration \<in> {Login, Configuration}"
proof -
  let ?s = "\<lparr>current = Login, status_request_seen = False\<rparr>"
  let ?s' = "\<lparr>current = Configuration, status_request_seen = False\<rparr>"
  have "state_step state_new ?s"
    by (rule state_step.move [of Login]) (simp add: transition_def state_new_def)
  then have r: "state_step\<^sup>*\<^sup>* state_new ?s" by (rule r_into_rtranclp)
  have "state_step ?s ?s'"
    by (rule state_step.move [of Configuration]) (simp add: transition_def)
  then have r': "state_step\<^sup>*\<^sup>* ?s ?s'" by (rule r_into_rtranclp)
  show ?thesis
    using r r' state_machine_paths [OF r r'] by simp
qed

text \<open>
  A move is refused exactly when it is not one of the three legal ones; the error names both
  states. A second status request is refused whatever happened in between.
\<close>

theorem transition_errors:
  "(transition to s = Inl e \<longleftrightarrow>
      e = IllegalTransition (current s) to \<and>
      (current s, to) \<notin> {(Handshaking, Status), (Handshaking, Login), (Login, Configuration)}) \<and>
   (mark_status_request_seen s = Inr s1 \<longrightarrow> state_step\<^sup>*\<^sup>* s1 s2 \<longrightarrow>
      mark_status_request_seen s2 = Inl DuplicateStatusRequest)"
proof -
  have "status_request_seen s2" if "state_step\<^sup>*\<^sup>* s1 s2" "status_request_seen s1"
    using that by (induction rule: rtranclp_induct) (auto elim!: state_stepE simp: transition_Inr mark_Inr)
  then show ?thesis
    by (auto simp: transition_def permitted_cases mark_Inr mark_status_request_seen_def split: if_splits)
qed

theorem transition_errors_witness:
  "mark_status_request_seen \<lparr>current = Status, status_request_seen = True\<rparr> = Inl DuplicateStatusRequest"
  using transition_errors [where s = "\<lparr>current = Status, status_request_seen = False\<rparr>"
      and ?s1.0 = "\<lparr>current = Status, status_request_seen = True\<rparr>"
      and ?s2.0 = "\<lparr>current = Status, status_request_seen = True\<rparr>"]
  by (simp add: mark_status_request_seen_def)

end
