(* ===== verification/Offline.thy ===== *)
theory Offline
  imports ConnState
begin

text \<open>
  \<open>crates/net/src/offline.rs\<close>. The MD5 digest is a parameter \<open>md5\<close> on byte strings; all that is
  relied on is that a digest has sixteen bytes, which is what its type says in the source.
\<close>

type_synonym digest = "byte list \<Rightarrow> byte list"

definition md5_digest :: "digest \<Rightarrow> bool" where
  "md5_digest md5 \<longleftrightarrow> (\<forall>m. length (md5 m) = 16)"

definition offline_uuid :: "digest \<Rightarrow> rstring \<Rightarrow> u128" where
  "offline_uuid md5 uname =
     (let bytes = md5 (ascii ''OfflinePlayer:'' @ uname);
          bytes = bytes[6 := (bytes ! 6 AND 0x0f) OR 0x30];
          bytes = bytes[8 := (bytes ! 8 AND 0x3f) OR 0x80]
      in from_be_bytes bytes)"

text \<open>\<open>char::is_ascii_alphanumeric\<close>, on scalar values.\<close>

definition is_ascii_alphanumeric :: "nat \<Rightarrow> bool" where
  "is_ascii_alphanumeric c \<longleftrightarrow>
     (0x30 \<le> c \<and> c \<le> 0x39) \<or> (0x41 \<le> c \<and> c \<le> 0x5A) \<or> (0x61 \<le> c \<and> c \<le> 0x7A)"

text \<open>This module has its own \<open>MAX_USERNAME_CHARS\<close>, with the value of the protocol's.\<close>

definition OFFLINE_MAX_USERNAME_CHARS :: usize where
  "OFFLINE_MAX_USERNAME_CHARS = 16"

definition validate_username :: "rstring \<Rightarrow> net_error + unit" where
  "validate_username name =
     (if name \<noteq> [] \<and> length (chars name) \<le> OFFLINE_MAX_USERNAME_CHARS \<and>
         list_all (\<lambda>c. is_ascii_alphanumeric c \<or> c = 0x5F) (chars name)
      then Inr () else Inl (InvalidUsername name))"

subsection \<open>Identity\<close>

lemma byte_shift_eq:
  fixes b :: byte
  shows "drop_bit 4 ((b AND 0x0f) OR 0x30) = 3" "drop_bit 6 ((b AND 0x3f) OR 0x80) = 2"
proof -
  have m: "(0x0f :: byte) = mask 4" "(0x3f :: byte) = mask 6" by (simp_all add: mask_eq_exp_minus_1)
  have "drop_bit 4 (b AND mask 4) = 0" "drop_bit 6 (b AND mask 6) = 0"
    by (rule bit_word_eqI; auto simp: bit_simps)+
  then show "drop_bit 4 ((b AND 0x0f) OR 0x30) = 3" "drop_bit 6 ((b AND 0x3f) OR 0x80) = 2"
    by (simp_all only: m drop_bit_or) simp_all
qed

text \<open>
  The offline identity is a version 3 UUID of the RFC 4122 variant: of its sixteen bytes, the
  high nibble of byte 6 is 3 and the top two bits of byte 8 are 10; every other byte is that of the
  digest of \<open>OfflinePlayer:\<close> followed by the name, so it depends on the name alone.
\<close>

theorem offline_uuid_v3:
  assumes "md5_digest md5"
  shows "let bs = to_be_bytes 16 (offline_uuid md5 uname);
             d = md5 (ascii ''OfflinePlayer:'' @ uname)
         in length bs = 16 \<and> drop_bit 4 (bs ! 6) = 3 \<and> drop_bit 6 (bs ! 8) = 2 \<and>
            bs ! 6 AND 0x0f = d ! 6 AND 0x0f \<and> bs ! 8 AND 0x3f = d ! 8 AND 0x3f \<and>
            (\<forall>i < 16. i \<noteq> 6 \<longrightarrow> i \<noteq> 8 \<longrightarrow> bs ! i = d ! i)"
proof -
  let ?d = "md5 (ascii ''OfflinePlayer:'' @ uname)"
  let ?bs = "?d[6 := (?d ! 6 AND 0x0f) OR 0x30, 8 := (?d ! 8 AND 0x3f) OR 0x80]"
  have len: "length ?d = 16" using assms by (simp add: md5_digest_def)
  then have "to_be_bytes 16 (offline_uuid md5 uname) = ?bs"
    unfolding offline_uuid_def Let_def by (subst to_from_be_bytes) simp_all
  moreover have "((b AND 0x0f) OR 0x30) AND 0x0f = b AND 0x0f" "((b AND 0x3f) OR 0x80) AND 0x3f = b AND 0x3f"
    for b :: byte
    by (simp_all add: bit.conj_disj_distrib2 and.assoc)
  ultimately show ?thesis
    using len by (simp add: Let_def byte_shift_eq)
qed

theorem offline_uuid_v3_witness:
  "drop_bit 4 (to_be_bytes 16 (offline_uuid (\<lambda>m. replicate 16 0xFF) [0x41]) ! 6) = 3"
proof -
  have "md5_digest (\<lambda>m. replicate 16 0xFF)" by (simp add: md5_digest_def)
  from offline_uuid_v3 [OF this, of "[0x41]"] show ?thesis by (simp only: Let_def)
qed

subsection \<open>Names\<close>

definition name_byte :: "byte \<Rightarrow> bool" where
  "name_byte b \<longleftrightarrow> is_ascii_alphanumeric (unat b) \<or> b = 0x5F"

lemma name_byte_ascii: "name_byte b \<Longrightarrow> b < 0x80"
  by (auto simp: name_byte_def is_ascii_alphanumeric_def word_less_nat_alt)

text \<open>
  A name is accepted exactly when it is one to sixteen bytes long, each a letter, a digit or an
  underscore of ASCII; a refused name is reported with the name.
\<close>

theorem validate_username_spec:
  assumes "utf8_valid name"
  shows "validate_username name =
     (if 1 \<le> length name \<and> length name \<le> 16 \<and> list_all name_byte name
      then Inr () else Inl (InvalidUsername name))"
proof -
  let ?cs = "\<lambda>c. is_ascii_alphanumeric c \<or> c = 0x5F"
  have eq: "list_all name_byte name \<and> chars name = map unat name \<longleftrightarrow> list_all ?cs (chars name)"
  proof
    assume "list_all name_byte name \<and> chars name = map unat name"
    then show "list_all ?cs (chars name)"
      by (auto simp: list_all_iff name_byte_def)
  next
    assume cs: "list_all ?cs (chars name)"
    then have "list_all (\<lambda>c. c < 0x80) (chars name)"
      by (auto simp: list_all_iff is_ascii_alphanumeric_def)
    then have "chars name = map unat name"
      by (intro chars_ascii ascii_chars_bytes [OF assms])
    with cs show "list_all name_byte name \<and> chars name = map unat name"
      by (auto simp: list_all_iff name_byte_def word_unat_eq_iff)
  qed
  have "list_all name_byte name \<Longrightarrow> chars name = map unat name"
    by (auto simp: list_all_iff intro!: chars_ascii name_byte_ascii)
  with eq show ?thesis
    by (auto simp: validate_username_def OFFLINE_MAX_USERNAME_CHARS_def Suc_le_eq)
qed

theorem validate_username_spec_witness:
  "validate_username (ascii ''Notch'') = Inr () \<and>
   validate_username (ascii ''no spaces'') = Inl (InvalidUsername (ascii ''no spaces''))"
proof -
  have "utf8_valid (ascii ''Notch'')" "utf8_valid (ascii ''no spaces'')"
    by (rule ascii_utf8_valid; simp add: ascii_def)+
  with validate_username_spec [of "ascii ''Notch''"] validate_username_spec [of "ascii ''no spaces''"]
  show ?thesis by (simp add: ascii_def name_byte_def is_ascii_alphanumeric_def)
qed

end
