(* ===== verification/Connection.thy ===== *)
theory Connection
  imports Offline
begin

text \<open>
  \<open>crates/net/src/config.rs\<close> and \<open>crates/net/src/connection.rs\<close>. The transport (\<open>Framed\<close> over a
  stream, the timer) is outside the repository: what \<open>timeout(.., framed.next())\<close> yields is a list
  of \<open>read_event\<close>s, over which every statement quantifies, and whether a flush succeeds is a
  function of the bytes. \<open>flate2\<close>, MD5 and \<open>serde_json\<close> are the other fields of \<open>environment\<close>.

  A handler returns its result and the connection as it left it. \<open>wire\<close> holds the bytes flushed so
  far, in order; the bytes of a failed flush are not counted, the connection ends with it.
\<close>

record server_config =
  motd :: text_component
  max_players :: i32
  read_timeout :: nat
  cfg_compression_threshold :: "i32 option"

definition server_config_default :: server_config where
  "server_config_default =
     \<lparr>motd = text_component_new (ascii ''A Pyrite Server''), max_players = 20, read_timeout = 30,
      cfg_compression_threshold = Some 256\<rparr>"

record environment =
  env_deflate :: deflater
  env_md5 :: digest
  env_json :: json_printer
  env_flush :: "byte list \<Rightarrow> byte list \<Rightarrow> io_error option"

datatype flow = Continue | Close

datatype read_event = Elapsed | StreamEnd | Frame "protocol_error + raw_packet"

record connection =
  codec :: packet_codec
  conn_state :: connection_state
  config :: server_config
  wire :: "byte list"

type_synonym handler_result = "(net_error + flow) \<times> connection"

definition connection_new :: "server_config \<Rightarrow> connection" where
  "connection_new cfg = \<lparr>codec = codec_new, conn_state = state_new, config = cfg, wire = []\<rparr>"

subsection \<open>Sending\<close>

text \<open>\<open>framed.send(packet).await\<close>: encode into the write buffer, then flush it.\<close>

definition send :: "environment \<Rightarrow> 'p packet \<Rightarrow> 'p \<Rightarrow> connection \<Rightarrow> (net_error + unit) \<times> connection" where
  "send env P item c =
     (case codec_encode (env_deflate env) P (codec c) item of
        (Inl e, k, _) \<Rightarrow> (Inl (Protocol e), c\<lparr>codec := k\<rparr>)
      | (Inr _, k, bs) \<Rightarrow>
          (case env_flush env (wire c) bs of
             Some e \<Rightarrow> (Inl (Protocol (Io e)), c\<lparr>codec := k\<rparr>)
           | None \<Rightarrow> (Inr (), c\<lparr>codec := k, wire := wire c @ bs\<rparr>)))"

subsection \<open>Handlers\<close>

definition move_to :: "state \<Rightarrow> connection \<Rightarrow> handler_result" where
  "move_to to c =
     (case transition to (conn_state c) of
        Inl e \<Rightarrow> (Inl e, c)
      | Inr s \<Rightarrow> (Inr Continue, c\<lparr>conn_state := s\<rparr>))"

definition handle_handshake :: "raw_packet \<Rightarrow> connection \<Rightarrow> handler_result" where
  "handle_handshake frame c =
     (case decode_as Handshake frame of
        Inl e \<Rightarrow> (Inl (Protocol e), c)
      | Inr h \<Rightarrow>
          (case next_state h of
             NS_Status \<Rightarrow> move_to Status c
           | NS_Login \<Rightarrow> move_to Login c
           | NS_Transfer \<Rightarrow> move_to Login c))"

definition invalid_username_text :: rstring where
  "invalid_username_text = ascii ''Invalid username. Use 1-16 characters of A-Z, a-z, 0-9 or _.''"

definition handle_login_start :: "environment \<Rightarrow> raw_packet \<Rightarrow> connection \<Rightarrow> handler_result" where
  "handle_login_start env frame c =
     (case decode_as LoginStart frame of
        Inl e \<Rightarrow> (Inl (Protocol e), c)
      | Inr start \<Rightarrow>
          (case validate_username (ls_name start) of
             Inl error \<Rightarrow>
               (case from_component (env_json env) (text_component_new invalid_username_text) of
                  Inl e \<Rightarrow> (Inl (Protocol e), c)
                | Inr packet \<Rightarrow>
                    (case send env LoginDisconnect packet c of
                       (Inl e, c) \<Rightarrow> (Inl e, c)
                     | (Inr _, c) \<Rightarrow> (Inl error, c)))
           | Inr _ \<Rightarrow>
               (let uuid = offline_uuid (env_md5 env) (ls_name start) in
                 (case (case cfg_compression_threshold (config c) of
                          None \<Rightarrow> (Inr (), c)
                        | Some threshold \<Rightarrow>
                            (case send env SetCompression \<lparr>sc_threshold = threshold\<rparr> c of
                               (Inl e, c) \<Rightarrow> (Inl e, c)
                             | (Inr _, c) \<Rightarrow>
                                 (Inr (), c\<lparr>codec := set_compression threshold (codec c)\<rparr>))) of
                    (Inl e, c) \<Rightarrow> (Inl e, c)
                  | (Inr _, c) \<Rightarrow>
                      (case send env LoginSuccess
                              \<lparr>profile = \<lparr>profile_uuid = uuid, username = ls_name start, properties = []\<rparr>,
                               session_id = uuid\<rparr> c of
                         (Inl e, c) \<Rightarrow> (Inl e, c)
                       | (Inr _, c) \<Rightarrow> (Inr Continue, c))))))"

definition handle_login_acknowledged :: "connection \<Rightarrow> handler_result" where
  "handle_login_acknowledged c = move_to Configuration c"

definition handle_status_request :: "environment \<Rightarrow> connection \<Rightarrow> handler_result" where
  "handle_status_request env c =
     (case mark_status_request_seen (conn_state c) of
        Inl e \<Rightarrow> (Inl e, c)
      | Inr s \<Rightarrow>
          (let c = c\<lparr>conn_state := s\<rparr>;
               status = status_response_json_new (motd (config c)) (max_players (config c)) 0 in
            (case env_json env (json_of_status status) of
               Inl e \<Rightarrow> (Inl (Protocol (Json e)), c)
             | Inr json \<Rightarrow>
                 (case send env StatusResponse \<lparr>status_json = json\<rparr> c of
                    (Inl e, c) \<Rightarrow> (Inl e, c)
                  | (Inr _, c) \<Rightarrow> (Inr Continue, c)))))"

definition handle_ping :: "environment \<Rightarrow> raw_packet \<Rightarrow> connection \<Rightarrow> handler_result" where
  "handle_ping env frame c =
     (case decode_as PingRequest frame of
        Inl e \<Rightarrow> (Inl (Protocol e), c)
      | Inr ping \<Rightarrow>
          (case send env PongResponse \<lparr>pong_payload = ping_payload ping\<rparr> c of
             (Inl e, c) \<Rightarrow> (Inl e, c)
           | (Inr _, c) \<Rightarrow> (Inr Close, c)))"

definition handle :: "environment \<Rightarrow> raw_packet \<Rightarrow> connection \<Rightarrow> handler_result" where
  "handle env frame c =
     (let s = current (conn_state c); i = raw_id frame in
       if s = Handshaking \<and> i = ID Handshake then handle_handshake frame c
       else if s = Status \<and> i = ID StatusRequest then handle_status_request env c
       else if s = Status \<and> i = ID PingRequest then handle_ping env frame c
       else if s = Login \<and> i = ID LoginStart then handle_login_start env frame c
       else if s = Login \<and> i = ID LoginAcknowledged then handle_login_acknowledged c
       else (Inl (UnexpectedPacket s i), c))"

subsection \<open>The read loop\<close>

text \<open>\<open>None\<close>: still waiting for the next event.\<close>

fun run :: "environment \<Rightarrow> connection \<Rightarrow> read_event list \<Rightarrow> (net_error + unit) option \<times> connection" where
  "run env c [] = (None, c)"
| "run env c (Elapsed # _) = (Some (Inl Timeout), c)"
| "run env c (StreamEnd # _) = (Some (Inr ()), c)"
| "run env c (Frame (Inl e) # _) = (Some (Inl (Protocol e)), c)"
| "run env c (Frame (Inr frame) # events) =
     (case handle env frame c of
        (Inl e, c) \<Rightarrow> (Some (Inl e), c)
      | (Inr Close, c) \<Rightarrow> (Some (Inr ()), c)
      | (Inr Continue, c) \<Rightarrow> run env c events)"

text \<open>The connections a read loop can be in when it waits for the next frame.\<close>

inductive reachable :: "environment \<Rightarrow> server_config \<Rightarrow> connection \<Rightarrow> bool"
  for env :: environment and cfg :: server_config where
  init: "reachable env cfg (connection_new cfg)"
| step: "reachable env cfg c \<Longrightarrow> handle env frame c = (Inr Continue, c') \<Longrightarrow> reachable env cfg c'"

subsection \<open>What sending changes\<close>

lemma codec_encode_threshold:
  "codec_encode deflate P c x = (r, c', bs) \<Longrightarrow> compression_threshold c' = compression_threshold c"
  by (auto simp: codec_encode_def Let_def split: prod.splits sum.splits option.splits if_splits)

lemma send_keeps:
  assumes "send env P x c = (r, c')"
  shows "conn_state c' = conn_state c \<and> config c' = config c \<and> prefix (wire c) (wire c') \<and>
    compression_threshold (codec c') = compression_threshold (codec c)"
  using assms codec_encode_threshold [of "env_deflate env" P "codec c" x]
  by (auto simp: send_def split: prod.splits sum.splits option.splits)

lemma send_ok:
  assumes "send env P x c = (Inr u, c')"
  obtains k bs where "codec_encode (env_deflate env) P (codec c) x = (Inr (), k, bs)"
    "env_flush env (wire c) bs = None" "c' = c\<lparr>codec := k, wire := wire c @ bs\<rparr>"
  using assms by (auto simp: send_def split: prod.splits sum.splits option.splits)

lemma send_error:
  assumes "send env P x c = (Inl e, c')"
  shows "wire c' = wire c \<and> (\<exists>p. e = Protocol p)"
  using assms by (auto simp: send_def split: prod.splits sum.splits option.splits)

text \<open>The threshold in force once compression has been announced.\<close>

definition announced :: "server_config \<Rightarrow> i32 option" where
  "announced cfg =
     (case cfg_compression_threshold cfg of
        None \<Rightarrow> None
      | Some t \<Rightarrow> if sint t < 0 then None else Some t)"

lemma set_compression_threshold:
  "compression_threshold (set_compression t k) = (if sint t < 0 then None else Some t)"
  by (simp add: set_compression_def)

lemma move_to_ok:
  "move_to to c = (Inr f, c') \<longleftrightarrow>
     permitted (current (conn_state c)) to \<and> f = Continue \<and> c' = c\<lparr>conn_state := (conn_state c)\<lparr>current := to\<rparr>\<rparr>"
  by (auto simp: move_to_def transition_def)

lemma move_to_keeps: "move_to to c = (r, c') \<Longrightarrow> wire c' = wire c \<and> codec c' = codec c \<and> config c' = config c"
  by (auto simp: move_to_def split: sum.splits)

lemma handle_login_start_keeps:
  assumes "handle_login_start env frame c = (r, c')"
  shows "conn_state c' = conn_state c \<and> config c' = config c \<and> prefix (wire c) (wire c') \<and>
      compression_threshold (codec c') \<in> {compression_threshold (codec c), announced (config c)}"
proof (cases "decode_as LoginStart frame")
  case (Inl e)
  with assms show ?thesis by (simp add: handle_login_start_def)
next
  case (Inr start)
  show ?thesis
  proof (cases "validate_username (ls_name start)")
    case (Inl e)
    with Inr assms show ?thesis
      by (auto simp: handle_login_start_def split: sum.splits prod.splits dest!: send_keeps)
  next
    case valid: (Inr u)
    show ?thesis
    proof (cases "cfg_compression_threshold (config c)")
      case None
      with Inr valid assms show ?thesis
        by (auto simp: handle_login_start_def Let_def split: sum.splits prod.splits dest!: send_keeps)
    next
      case (Some t)
      obtain r1 c1 where s1: "send env SetCompression \<lparr>sc_threshold = t\<rparr> c = (r1, c1)"
        by (cases "send env SetCompression \<lparr>sc_threshold = t\<rparr> c")
      then show ?thesis
        using Inr valid Some assms send_keeps [OF s1]
        by (auto simp: handle_login_start_def Let_def announced_def set_compression_threshold
            split: sum.splits prod.splits dest!: send_keeps intro: prefix_order.trans)
    qed
  qed
qed

lemma handle_status_request_keeps:
  assumes "handle_status_request env c = (r, c')"
  shows "config c' = config c \<and> prefix (wire c) (wire c') \<and>
    current (conn_state c') = current (conn_state c) \<and>
    compression_threshold (codec c') = compression_threshold (codec c)"
  using assms
  by (auto simp: handle_status_request_def mark_status_request_seen_def Let_def
      split: sum.splits prod.splits if_splits dest!: send_keeps)

lemma handle_ping_keeps:
  assumes "handle_ping env frame c = (r, c')"
  shows "conn_state c' = conn_state c \<and> config c' = config c \<and> prefix (wire c) (wire c') \<and>
    compression_threshold (codec c') = compression_threshold (codec c) \<and> r \<noteq> Inr Continue"
  using assms by (auto simp: handle_ping_def split: sum.splits prod.splits dest!: send_keeps)

text \<open>The handler that each state and packet ID select.\<close>

lemma handle_cases [case_names handshake status ping login_start login_ack unexpected]:
  obtains "current (conn_state c) = Handshaking" "raw_id frame = 0" "handle env frame c = handle_handshake frame c"
  | "current (conn_state c) = Status" "raw_id frame = 0" "handle env frame c = handle_status_request env c"
  | "current (conn_state c) = Status" "raw_id frame = 1" "handle env frame c = handle_ping env frame c"
  | "current (conn_state c) = Login" "raw_id frame = 0" "handle env frame c = handle_login_start env frame c"
  | "current (conn_state c) = Login" "raw_id frame = 3" "handle env frame c = handle_login_acknowledged c"
  | "(current (conn_state c), raw_id frame) \<notin>
       {(Handshaking, 0), (Status, 0), (Status, 1), (Login, 0), (Login, 3)}"
    "handle env frame c = (Inl (UnexpectedPacket (current (conn_state c)) (raw_id frame)), c)"
  by (cases "current (conn_state c)") (auto simp: handle_def Let_def packet_defs)

subsection \<open>Delivery\<close>

text \<open>
  \<open>reads_as inflate t bs P x\<close>: a peer whose codec is at threshold \<open>t\<close> decodes \<open>bs\<close> as exactly one
  frame, carrying the packet \<open>x\<close> of type \<open>P\<close>.
\<close>

definition reads_as :: "inflater \<Rightarrow> i32 option \<Rightarrow> byte list \<Rightarrow> 'p packet \<Rightarrow> 'p \<Rightarrow> bool" where
  "reads_as inflate t bs P x \<longleftrightarrow>
     (\<forall>d rest. compression_threshold d = t \<longrightarrow>
        (\<exists>raw k. codec_decode inflate d (bs @ rest) = (Inr (Some raw), rest, k) \<and>
           raw_id raw = ID P \<and> decode_as P raw = Inr x))"

text \<open>
  The environment a connection hopes for: a lossless compressor that succeeds and, as \<open>zlib\<close>
  documents, adds only little to incompressible data (the bound asked for is far above it), a
  transport that takes what it is given, and a digest of the right size.
\<close>

definition env_ok :: "environment \<Rightarrow> inflater \<Rightarrow> bool" where
  "env_ok env inflate \<longleftrightarrow>
     zlib_lossless (env_deflate env) inflate \<and>
     (\<forall>bs. \<exists>z. env_deflate env bs = Inr z \<and> length z \<le> 2 * length bs + 64) \<and>
     (\<forall>w bs. env_flush env w bs = None) \<and> md5_digest (env_md5 env)"

lemma reads_asI:
  assumes "length payload \<le> MAX_PACKET_SIZE"
    and "open_payload inflate t payload = Inr \<lparr>raw_id = ID P, raw_body = fst (encode_body P x)\<rparr>"
    and "packet_impl P ok" "ok x"
  shows "reads_as inflate t (write_varint (i32_of_usize (length payload)) @ payload) P x"
  unfolding reads_as_def
proof (intro allI impI)
  fix d :: packet_codec and rest
  assume "compression_threshold d = t"
  moreover have "decode_body P (fst (encode_body P x)) = Inr (x, [])"
    using packet_impl.axioms(1) [OF assms(3)] assms(4) by (rule field_codec.rd_wr_exact)
  moreover have "length payload < 2 ^ 31" using assms(1) by (simp add: MAX_PACKET_SIZE_def)
  ultimately show "\<exists>raw k. codec_decode inflate d ((write_varint (i32_of_usize (length payload)) @ payload) @ rest) =
        (Inr (Some raw), rest, k) \<and> raw_id raw = ID P \<and> decode_as P raw = Inr x"
    using codec_decode_frame [of payload inflate d rest] assms(1,2) by (simp add: decode_as_def)
qed

lemma payload_fits:
  assumes "length buf \<le> 1000000" "\<And>z. deflate buf = Inr z \<Longrightarrow> length z \<le> 2 * length buf + 64"
    and "case t of None \<Rightarrow> payload = buf
       | Some t \<Rightarrow> if length buf < usize_of_i32 t then payload = write_varint 0 @ buf
           else \<exists>z. deflate buf = Inr z \<and> payload = write_varint (i32_of_usize (length buf)) @ z"
  shows "length payload \<le> MAX_PACKET_SIZE"
proof -
  have "\<exists>q r. payload = q @ r \<and> length q \<le> 5 \<and> length r \<le> 2 * length buf + 64"
  proof (cases t)
    case None
    with assms(3) show ?thesis by (intro exI [of _ "[]"] exI [of _ payload]) simp
  next
    case (Some t')
    show ?thesis
    proof (cases "length buf < usize_of_i32 t'")
      case True
      with assms(3) Some show ?thesis by (intro exI [of _ "write_varint 0"] exI [of _ buf]) simp
    next
      case False
      with assms(3) Some obtain z where
          "deflate buf = Inr z" "payload = write_varint (i32_of_usize (length buf)) @ z" by auto
      with assms(2) show ?thesis
        by (intro exI [of _ "write_varint (i32_of_usize (length buf))"] exI [of _ z]) simp
    qed
  qed
  with assms(1) show ?thesis by (auto simp: MAX_PACKET_SIZE_def)
qed

lemma encoded_reads_as:
  assumes "zlib_lossless deflate inflate" "packet_impl P ok" "ok x"
    and "length (write_varint (ID P) @ fst (encode_body P x)) \<le> 1000000"
    and "\<And>bs z. deflate bs = Inr z \<Longrightarrow> length z \<le> 2 * length bs + 64"
    and "codec_encode deflate P k x = (Inr (), k', bs)"
  shows "reads_as inflate (compression_threshold k) bs P x"
proof -
  let ?buf = "write_varint (ID P) @ fst (encode_body P x)"
  obtain payload where p: "bs = write_varint (i32_of_usize (length payload)) @ payload"
      "length ?buf \<le> MAX_PACKET_SIZE"
      "case compression_threshold k of None \<Rightarrow> payload = ?buf
       | Some t \<Rightarrow> if length ?buf < usize_of_i32 t then payload = write_varint 0 @ ?buf
           else \<exists>z. deflate ?buf = Inr z \<and> payload = write_varint (i32_of_usize (length ?buf)) @ z"
    using assms(6) by (rule codec_encode_frame)
  have "length payload \<le> MAX_PACKET_SIZE"
    using assms(4,5) p(3) by (rule payload_fits)
  then show ?thesis
    unfolding p(1) using open_payload_encoded [OF assms(1) p(2,3)] assms(2,3) by (rule reads_asI)
qed

lemma send_delivers:
  assumes env: "env_ok env inflate" and "packet_impl P ok" "ok x"
    and small: "length (write_varint (ID P) @ fst (encode_body P x)) \<le> 1000000"
  obtains k bs where "send env P x c = (Inr (), c\<lparr>codec := k, wire := wire c @ bs\<rparr>)"
    and "compression_threshold k = compression_threshold (codec c)"
    and "reads_as inflate (compression_threshold (codec c)) bs P x"
proof -
  have bound: "length z \<le> 2 * length bs + 64" if "env_deflate env bs = Inr z" for bs z
    using env that unfolding env_ok_def by (metis sum.inject(2))
  obtain z where "env_deflate env (write_varint (ID P) @ fst (encode_body P x)) = Inr z"
    using env unfolding env_ok_def by blast
  then obtain k bs where enc: "codec_encode (env_deflate env) P (codec c) x = (Inr (), k, bs)"
    using codec_encode_succeeds [of P x "env_deflate env" z "codec c"] small
      packet_impl.encode_total [OF assms(2)] by (auto simp: MAX_PACKET_SIZE_def)
  have "zlib_lossless (env_deflate env) inflate" using env by (simp add: env_ok_def)
  then have "reads_as inflate (compression_threshold (codec c)) bs P x"
    using assms(2,3) small bound enc by (rule encoded_reads_as)
  moreover have "send env P x c = (Inr (), c\<lparr>codec := k, wire := wire c @ bs\<rparr>)"
    using enc env by (simp add: send_def env_ok_def)
  ultimately show thesis using codec_encode_threshold [OF enc] that by blast
qed

subsection \<open>The invariant of a connection\<close>

definition conn_inv :: "server_config \<Rightarrow> connection \<Rightarrow> bool" where
  "conn_inv cfg c \<longleftrightarrow>
     config c = cfg \<and> current (conn_state c) \<noteq> Play \<and>
     (current (conn_state c) = Handshaking \<longrightarrow> wire c = []) \<and>
     (status_request_seen (conn_state c) \<longrightarrow> current (conn_state c) = Status) \<and>
     (if current (conn_state c) \<in> {Login, Configuration}
      then compression_threshold (codec c) \<in> {None, announced cfg}
      else compression_threshold (codec c) = None)"

lemma conn_inv_init: "conn_inv cfg (connection_new cfg)"
  by (simp add: conn_inv_def connection_new_def state_new_def codec_new_def)

lemma conn_inv_handle:
  assumes "conn_inv cfg c" "handle env frame c = (Inr Continue, c')"
  shows "conn_inv cfg c'"
proof (cases rule: handle_cases [where c = c and frame = frame and env = env])
  case handshake
  with assms show ?thesis
    by (auto simp: conn_inv_def handle_handshake_def move_to_ok split: sum.splits next_state.splits)
next
  case status
  with assms handle_status_request_keeps [of env c "Inr Continue" c'] show ?thesis
    by (auto simp: conn_inv_def)
next
  case ping
  with assms handle_ping_keeps [of env frame c "Inr Continue" c'] show ?thesis by simp
next
  case login_start
  with assms handle_login_start_keeps [of env frame c "Inr Continue" c'] show ?thesis
    by (auto simp: conn_inv_def)
next
  case login_ack
  with assms show ?thesis
    by (auto simp: conn_inv_def handle_login_acknowledged_def move_to_ok)
qed (use assms in simp)

lemma reachable_inv: "reachable env cfg c \<Longrightarrow> conn_inv cfg c"
  by (induction rule: reachable.induct) (auto intro: conn_inv_init conn_inv_handle)

subsection \<open>Properties\<close>

text \<open>
  C11: every connection the read loop can be in satisfies the connection invariant: it is never in
  \<open>Play\<close>; nothing has been sent while it is handshaking; a status request can only have been seen
  in \<open>Status\<close>; and compression is off outside \<open>Login\<close> and \<open>Configuration\<close>, where it is off or at the
  configured threshold, never at a negative one. So a status exchange is never compressed.
\<close>

theorem connection_invariant:
  assumes "reachable env cfg c"
  shows "config c = cfg \<and> current (conn_state c) \<noteq> Play \<and>
     (current (conn_state c) = Handshaking \<longrightarrow> wire c = []) \<and>
     (status_request_seen (conn_state c) \<longrightarrow> current (conn_state c) = Status) \<and>
     (current (conn_state c) \<in> {Handshaking, Status} \<longrightarrow> compression_threshold (codec c) = None) \<and>
     (\<forall>t. compression_threshold (codec c) = Some t \<longrightarrow>
        cfg_compression_threshold cfg = Some t \<and> 0 \<le> sint t)"
  using reachable_inv [OF assms]
  by (auto simp: conn_inv_def announced_def split: if_splits option.splits)

lemma login_handshake_reachable:
  assumes "decode_as Handshake frame = Inr h" "next_state h = NS_Login" "raw_id frame = 0"
  shows "handle env frame (connection_new cfg) =
     (Inr Continue, (connection_new cfg)\<lparr>conn_state := \<lparr>current = Login, status_request_seen = False\<rparr>\<rparr>)"
  using assms
  by (simp add: handle_def Let_def packet_defs(1) connection_new_def state_new_def handle_handshake_def
      move_to_def transition_def)

definition login_hello :: raw_packet where
  "login_hello = \<lparr>raw_id = 0, raw_body = fst (encode_body Handshake
     \<lparr>protocol_version = 776, server_address = [], server_port = 25565, next_state = NS_Login\<rparr>)\<rparr>"

lemma decode_login_hello:
  "decode_as Handshake login_hello =
     Inr \<lparr>protocol_version = 776, server_address = [], server_port = 25565, next_state = NS_Login\<rparr>"
  by (simp add: login_hello_def decode_as_def Handshake.rd_wr_exact handshake_ok_def string_ok_def)

definition login_waiting :: "server_config \<Rightarrow> connection" where
  "login_waiting cfg = (connection_new cfg)\<lparr>conn_state := \<lparr>current = Login, status_request_seen = False\<rparr>\<rparr>"

lemma login_waiting_reachable: "reachable env cfg (login_waiting cfg)"
  using reachable.step [OF reachable.init login_handshake_reachable [OF decode_login_hello]]
  by (simp add: login_hello_def login_waiting_def)

text \<open>An environment in which nothing fails, for the concrete instances.\<close>

definition ideal_env :: environment where
  "ideal_env = \<lparr>env_deflate = stored_deflate, env_md5 = (\<lambda>_. replicate 16 0),
     env_json = (\<lambda>_. Inr []), env_flush = (\<lambda>_ _. None)\<rparr>"

theorem connection_invariant_witness:
  "current (conn_state (login_waiting server_config_default)) \<noteq> Play \<and>
   config (login_waiting server_config_default) = server_config_default"
  using connection_invariant [OF login_waiting_reachable [of ideal_env]] by blast

text \<open>
  What a handler may fail with: never with an unexpected packet, which is the dispatcher's to report,
  and with transport noise only if the transport or the compressor failed.
\<close>

definition transport_fault :: "environment \<Rightarrow> bool" where
  "transport_fault env \<longleftrightarrow>
     (\<exists>w bs m. env_flush env w bs = Some m) \<or> (\<exists>bs m. env_deflate env bs = Inl m)"

definition handler_error :: "environment \<Rightarrow> net_error \<Rightarrow> bool" where
  "handler_error env e \<longleftrightarrow>
     (is_transport_noise e \<longrightarrow> transport_fault env) \<and> (\<forall>s i. e \<noteq> UnexpectedPacket s i)"

lemma noise_iff: "is_transport_noise e \<longleftrightarrow> e = Timeout \<or> (\<exists>m. e = Protocol (Io m))"
  by (cases e rule: is_transport_noise.cases) auto

lemma send_handler_error:
  assumes "send env P x c = (Inl e, c')" "snd (encode_body P x) = Inr ()"
  shows "handler_error env e"
  using assms
  by (auto simp: send_def codec_encode_def Let_def handler_error_def transport_fault_def noise_iff
      split: prod.splits sum.splits option.splits if_splits)

lemma decode_handler_error:
  "no_io (decode_body P) \<Longrightarrow> decode_as P frame = Inl e \<Longrightarrow> handler_error env (Protocol e)"
  by (auto simp: decode_as_def no_io_def handler_error_def noise_iff split: sum.splits if_splits)

lemma other_handler_errors [simp]:
  "handler_error env (IllegalTransition a b)" "handler_error env DuplicateStatusRequest"
  "handler_error env (InvalidUsername n)" "handler_error env (Protocol (Json j))"
  by (simp_all add: handler_error_def)

lemmas encode_totals = LoginDisconnect.encode_total SetCompression.encode_total LoginSuccess.encode_total
  StatusResponse.encode_total PongResponse.encode_total

lemma login_start_error:
  assumes "handle_login_start env frame c = (Inl e, c')"
  shows "handler_error env e"
proof (cases "decode_as LoginStart frame")
  case (Inl d)
  with assms show ?thesis
    by (auto simp: handle_login_start_def intro: decode_handler_error serverbound_no_io)
next
  case (Inr start)
  show ?thesis
  proof (cases "validate_username (ls_name start)")
    case (Inl d)
    then have "d = InvalidUsername (ls_name start)" by (simp add: validate_username_def split: if_splits)
    with Inr Inl assms show ?thesis
      by (auto simp: handle_login_start_def from_component_def encode_totals dest: send_handler_error
          split: sum.splits prod.splits)
  next
    case (Inr u)
    with \<open>decode_as LoginStart frame = Inr start\<close> assms show ?thesis
      by (auto simp: handle_login_start_def Let_def encode_totals dest: send_handler_error
          split: sum.splits prod.splits option.splits)
  qed
qed

lemma handle_error:
  assumes "handle env frame c = (Inl e, c')"
  shows "if (current (conn_state c), raw_id frame) \<in>
       {(Handshaking, 0), (Status, 0), (Status, 1), (Login, 0), (Login, 3)}
     then handler_error env e else e = UnexpectedPacket (current (conn_state c)) (raw_id frame)"
proof (cases rule: handle_cases [where c = c and frame = frame and env = env])
  case handshake
  with assms show ?thesis
    by (auto simp: handle_handshake_def move_to_def transition_def
        intro: decode_handler_error serverbound_no_io split: sum.splits next_state.splits if_splits)
next
  case status
  with assms show ?thesis
    by (auto simp: handle_status_request_def mark_status_request_seen_def Let_def encode_totals
        dest: send_handler_error split: sum.splits prod.splits if_splits)
next
  case ping
  with assms show ?thesis
    by (auto simp: handle_ping_def encode_totals dest: send_handler_error
        intro: decode_handler_error serverbound_no_io split: sum.splits prod.splits)
next
  case login_start
  with assms login_start_error show ?thesis by simp
next
  case login_ack
  with assms show ?thesis
    by (auto simp: handle_login_acknowledged_def move_to_def transition_def split: if_splits)
qed (use assms in auto)

text \<open>
  C26: dispatch is total and exact: a frame whose ID is not one of the five the table lists for the
  current state is refused with \<open>UnexpectedPacket\<close>, and the connection is left as it was; no other
  frame ever produces that error. In \<open>Configuration\<close> every frame is refused.
\<close>

theorem dispatch_exact:
  "if (current (conn_state c), raw_id frame) \<in>
        {(Handshaking, ID Handshake), (Status, ID StatusRequest), (Status, ID PingRequest),
         (Login, ID LoginStart), (Login, ID LoginAcknowledged)}
   then \<forall>s i. fst (handle env frame c) \<noteq> Inl (UnexpectedPacket s i)
   else handle env frame c = (Inl (UnexpectedPacket (current (conn_state c)) (raw_id frame)), c)"
proof -
  have "fst (handle env frame c) \<noteq> Inl (UnexpectedPacket s i)"
    if "(current (conn_state c), raw_id frame) \<in>
        {(Handshaking, 0), (Status, 0), (Status, 1), (Login, 0), (Login, 3)}" for s i
    using handle_error [of env frame c "UnexpectedPacket s i" "snd (handle env frame c)"] that
    by (auto simp: handler_error_def prod_eq_iff)
  moreover have "handle env frame c = (Inl (UnexpectedPacket (current (conn_state c)) (raw_id frame)), c)"
    if "(current (conn_state c), raw_id frame) \<notin>
        {(Handshaking, 0), (Status, 0), (Status, 1), (Login, 0), (Login, 3)}"
    using that by (cases rule: handle_cases [where c = c and frame = frame and env = env]) auto
  ultimately show ?thesis
    by (simp add: packet_defs)
qed

text \<open>
  What a peer sends is never filed as transport noise: if the connection ends with an error so
  classified, then the timer fired, or the transport failed to read or to flush, or the compressor
  failed. Malformed frames, corrupt compressed data and protocol violations always surface.
\<close>

lemma noise_only_from_transport:
  assumes "run env c events = (Some (Inl e), c')" "is_transport_noise e"
  shows "Elapsed \<in> set events \<or> (\<exists>m. Frame (Inl (Io m)) \<in> set events) \<or> transport_fault env"
  using assms(1)
proof (induction env c events rule: run.induct)
  case (4 env c d es)
  with assms(2) show ?case by (auto simp: noise_iff)
next
  case (5 env c frame es)
  show ?case
  proof (cases "fst (handle env frame c)")
    case (Inl d)
    with "5.prems" have "handle env frame c = (Inl e, c')" by (cases "handle env frame c") simp
    from handle_error [OF this] assms(2) show ?thesis
      by (auto simp: handler_error_def split: if_splits)
  next
    case (Inr f)
    obtain c1 where h: "handle env frame c = (Inr f, c1)" using Inr by (cases "handle env frame c") simp
    with "5.prems" "5.IH" [OF h [symmetric] refl] show ?thesis by (cases f) auto
  qed
qed simp_all

text \<open>
  The identity a client claims plays no part: two login starts with the same name are handled in
  exactly the same way, whatever UUID they carry.
\<close>

theorem login_ignores_claimed_uuid:
  assumes "decode_as LoginStart f = Inr \<lparr>ls_name = name, ls_uuid = u\<rparr>"
    and "decode_as LoginStart g = Inr \<lparr>ls_name = name, ls_uuid = v\<rparr>"
  shows "handle_login_start env f c = handle_login_start env g c"
  unfolding handle_login_start_def assms sum.case login_start.select_convs by (rule refl)

definition sample_start :: "u128 \<Rightarrow> raw_packet" where
  "sample_start u = \<lparr>raw_id = 0, raw_body = fst (encode_body LoginStart \<lparr>ls_name = ascii ''Notch'', ls_uuid = u\<rparr>)\<rparr>"

lemma sample_start_ok: "login_start_ok \<lparr>ls_name = ascii ''Notch'', ls_uuid = u\<rparr>"
proof -
  have "utf8_valid (ascii ''Notch'')" by (rule ascii_utf8_valid) (simp add: ascii_def)
  then show ?thesis
    by (simp add: login_start_ok_def string_ok_def MAX_USERNAME_CHARS_def MAX_BYTES_PER_CHAR_def ascii_def)
qed

lemma decode_sample_start:
  "decode_as LoginStart (sample_start u) = Inr \<lparr>ls_name = ascii ''Notch'', ls_uuid = u\<rparr>"
  using sample_start_ok by (simp add: sample_start_def decode_as_def LoginStart.rd_wr_exact)

theorem login_ignores_claimed_uuid_witness:
  "handle_login_start ideal_env (sample_start 1) (login_waiting server_config_default) =
   handle_login_start ideal_env (sample_start 2) (login_waiting server_config_default)"
  by (rule login_ignores_claimed_uuid) (rule decode_sample_start)+

end
