(* ===== verification/Server.thy ===== *)
theory Server
  imports Connection
begin

text \<open>
  \<open>crates/net/src/server.rs\<close>: the accept loop, the life of a connection's task as far as admission
  sees it, and draining. The loop, the tasks and the clock run concurrently, so the server is a state
  and \<open>serve_event\<close> says what each atomic step of any of them does to it, and that it cannot happen
  (\<open>None\<close>) where the code does not allow it; an execution is a list of events. Tokio's semaphore is
  the number of free permits, its \<open>JoinSet\<close> the numbers of tasks that still hold their permit, have
  dropped it but not finished, and have finished but not been joined. The counters \<open>accepted\<close> and
  \<open>refused\<close> are \<open>u64\<close>s, and \<open>+=\<close> wraps around on them, as in a build without overflow checks.
\<close>

record serve_options =
  max_connections :: usize
  shutdown_grace :: nat

definition serve_options_default :: serve_options where
  "serve_options_default = \<lparr>max_connections = 1000, shutdown_grace = 5\<rparr>"

record serve_outcome =
  so_accepted :: u64
  so_refused :: u64
  drained :: bool
  abandoned :: usize

text \<open>
  Where the accept loop is: at \<open>select!\<close>, reaping finished tasks, acquiring a permit; reaping and
  waiting in \<open>drain\<close>; or returned.
\<close>

datatype serve_pc = Selecting | Reaping | Acquiring | DrainReaping | Draining | Returned serve_outcome

record server =
  pc :: serve_pc
  permits :: usize
  serving :: usize
  releasing :: usize
  finished :: usize
  accepted :: u64
  refused :: u64

definition serve_init :: "serve_options \<Rightarrow> server" where
  "serve_init options =
     \<lparr>pc = Selecting, permits = max_connections options, serving = 0, releasing = 0, finished = 0,
      accepted = 0, refused = 0\<rparr>"

text \<open>\<open>connections.len()\<close>.\<close>

definition join_set_len :: "server \<Rightarrow> usize" where
  "join_set_len s = serving s + releasing s + finished s"

datatype server_event =
    Accept | AcceptError | TryJoinSome | TryJoinNone | TryAcquire | Shutdown
  | DropPermit | TaskFinished | JoinNextSome | JoinNextNone | GraceExpired

definition returned :: "server \<Rightarrow> bool \<Rightarrow> usize \<Rightarrow> server" where
  "returned s d a =
     s\<lparr>pc := Returned \<lparr>so_accepted = accepted s, so_refused = refused s, drained = d, abandoned = a\<rparr>\<rparr>"

text \<open>The accept loop of \<open>serve\<close>.\<close>

fun accept_loop_event :: "server_event \<Rightarrow> server \<Rightarrow> server option" where
  "accept_loop_event Accept s = (if pc s = Selecting then Some (s\<lparr>pc := Reaping\<rparr>) else None)"
| "accept_loop_event AcceptError s = (if pc s = Selecting then Some s else None)"
| "accept_loop_event TryJoinSome s =
     (if pc s = Reaping \<and> finished s > 0 then Some (s\<lparr>finished := finished s - 1\<rparr>) else None)"
| "accept_loop_event TryJoinNone s =
     (if pc s = Reaping \<and> finished s = 0 then Some (s\<lparr>pc := Acquiring\<rparr>) else None)"
| "accept_loop_event TryAcquire s =
     (if pc s = Acquiring then
        Some (if permits s = 0 then s\<lparr>pc := Selecting, refused := refused s + 1\<rparr>
              else s\<lparr>pc := Selecting, permits := permits s - 1, serving := serving s + 1,
                     accepted := accepted s + 1\<rparr>)
      else None)"
| "accept_loop_event Shutdown s = (if pc s = Selecting then Some (s\<lparr>pc := DrainReaping\<rparr>) else None)"
| "accept_loop_event _ s = None"

text \<open>A connection's task: \<open>run_connection\<close> drops its permit, then the task is finished.\<close>

definition is_returned :: "server \<Rightarrow> bool" where
  "is_returned s \<longleftrightarrow> (case pc s of Returned _ \<Rightarrow> True | _ \<Rightarrow> False)"

fun task_event :: "server_event \<Rightarrow> server \<Rightarrow> server option" where
  "task_event DropPermit s =
     (if \<not> is_returned s \<and> serving s > 0
      then Some (s\<lparr>serving := serving s - 1, releasing := releasing s + 1, permits := permits s + 1\<rparr>)
      else None)"
| "task_event TaskFinished s =
     (if \<not> is_returned s \<and> releasing s > 0
      then Some (s\<lparr>releasing := releasing s - 1, finished := finished s + 1\<rparr>) else None)"
| "task_event _ s = None"

text \<open>\<open>drain\<close>: reap, return at once if nothing is left, else wait for the tasks or the clock.\<close>

fun drain_event :: "server_event \<Rightarrow> server \<Rightarrow> server option" where
  "drain_event TryJoinSome s =
     (if pc s = DrainReaping \<and> finished s > 0 then Some (s\<lparr>finished := finished s - 1\<rparr>) else None)"
| "drain_event TryJoinNone s =
     (if pc s = DrainReaping \<and> finished s = 0 then
        Some (if join_set_len s = 0 then returned s True 0 else s\<lparr>pc := Draining\<rparr>)
      else None)"
| "drain_event JoinNextSome s =
     (if pc s = Draining \<and> finished s > 0 then Some (s\<lparr>finished := finished s - 1\<rparr>) else None)"
| "drain_event JoinNextNone s =
     (if pc s = Draining \<and> join_set_len s = 0 then Some (returned s True 0) else None)"
| "drain_event GraceExpired s =
     (if pc s = Draining \<and> join_set_len s > 0 then Some (returned s False (join_set_len s)) else None)"
| "drain_event _ s = None"

definition serve_event :: "server_event \<Rightarrow> server \<Rightarrow> server option" where
  "serve_event e s =
     (case accept_loop_event e s of
        Some s' \<Rightarrow> Some s'
      | None \<Rightarrow> (case task_event e s of Some s' \<Rightarrow> Some s' | None \<Rightarrow> drain_event e s))"

fun serve_run :: "server_event list \<Rightarrow> server \<Rightarrow> server option" where
  "serve_run [] s = Some s"
| "serve_run (e # es) s = (case serve_event e s of None \<Rightarrow> None | Some s' \<Rightarrow> serve_run es s')"

text \<open>What \<open>run_connection\<close> logs when a connection ends.\<close>

datatype log_level = Log_Debug | Log_Warn

definition run_connection_log :: "net_error + unit \<Rightarrow> log_level option" where
  "run_connection_log r =
     (case r of
        Inl e \<Rightarrow> Some (if is_transport_noise e then Log_Debug else Log_Warn)
      | Inr _ \<Rightarrow> None)"

subsection \<open>Admission\<close>

inductive serve_reachable :: "serve_options \<Rightarrow> server \<Rightarrow> bool" for options where
  init: "serve_reachable options (serve_init options)"
| step: "serve_reachable options s \<Longrightarrow> serve_event e s = Some s' \<Longrightarrow> serve_reachable options s'"

lemma serve_event_cases:
  assumes "serve_event e s = Some s'"
  obtains (accept) "accept_loop_event e s = Some s'" | (task) "task_event e s = Some s'"
    | (drain) "drain_event e s = Some s'"
  using assms by (auto simp: serve_event_def split: option.splits)

lemma serve_event_permits:
  assumes "serve_event e s = Some s'" "permits s + serving s = n"
  shows "permits s' + serving s' = n"
  using assms(1)
proof (cases rule: serve_event_cases)
  case accept
  then show ?thesis using assms(2) by (cases e) (auto split: if_splits)
next
  case task
  then show ?thesis using assms(2) by (cases e) (auto split: if_splits)
next
  case drain
  then show ?thesis using assms(2) by (cases e) (auto simp: returned_def split: if_splits)
qed

lemma serve_reachable_permits:
  "serve_reachable options s \<Longrightarrow> permits s + serving s = max_connections options"
  by (induction rule: serve_reachable.induct) (auto simp: serve_init_def intro: serve_event_permits)

text \<open>
  C17: the cap holds under every interleaving: permits and connections being served always add up to
  the configured maximum, so no more than that many are ever served; and a peer is refused only at
  an instant when exactly that many are.
\<close>

theorem admission_control:
  assumes "serve_reachable options s"
  shows "permits s + serving s = max_connections options \<and> serving s \<le> max_connections options \<and>
    (\<forall>s'. serve_event TryAcquire s = Some s' \<longrightarrow>
       (if serving s = max_connections options
        then refused s' = refused s + 1 \<and> serving s' = serving s \<and> accepted s' = accepted s
        else refused s' = refused s \<and> serving s' = serving s + 1 \<and> accepted s' = accepted s + 1))"
  using serve_reachable_permits [OF assms]
  by (auto simp: serve_event_def split: if_splits option.splits)

lemma serve_run_reachable:
  "serve_reachable options s \<Longrightarrow> serve_run es s = Some s' \<Longrightarrow> serve_reachable options s'"
  by (induction es arbitrary: s) (auto split: option.splits intro: serve_reachable.step)

lemma one_slot_full:
  "serve_run [Accept, TryJoinNone, TryAcquire, Accept, TryJoinNone]
     (serve_init \<lparr>max_connections = 1, shutdown_grace = 5\<rparr>) =
   Some \<lparr>pc = Acquiring, permits = 0, serving = 1, releasing = 0, finished = 0, accepted = 1, refused = 0\<rparr>"
  by (simp add: serve_event_def serve_init_def)

theorem admission_control_witness:
  "serve_event TryAcquire
     \<lparr>pc = Acquiring, permits = 0, serving = 1, releasing = 0, finished = 0, accepted = 1, refused = 0\<rparr> =
   Some \<lparr>pc = Selecting, permits = 0, serving = 1, releasing = 0, finished = 0, accepted = 1, refused = 1\<rparr> \<and>
   refused \<lparr>pc = Selecting, permits = 0, serving = 1, releasing = 0, finished = 0, accepted = 1, refused = 1\<rparr> = 0 + 1"
proof -
  let ?s = "\<lparr>pc = Acquiring, permits = 0, serving = 1, releasing = 0, finished = 0, accepted = 1, refused = 0\<rparr>"
  have r: "serve_reachable \<lparr>max_connections = 1, shutdown_grace = 5\<rparr> ?s"
    by (rule serve_run_reachable [OF serve_reachable.init one_slot_full])
  have "serve_event TryAcquire ?s =
      Some \<lparr>pc = Selecting, permits = 0, serving = 1, releasing = 0, finished = 0, accepted = 1, refused = 1\<rparr>"
    by (simp add: serve_event_def)
  with admission_control [OF r] show ?thesis by fastforce
qed

subsection \<open>Accounting\<close>

text \<open>A peer that has been accepted from the listener but not yet admitted or refused.\<close>

definition undecided :: "server \<Rightarrow> nat" where
  "undecided s = (if pc s \<in> {Reaping, Acquiring} then 1 else 0)"

text \<open>
  How many peers an execution admits and turns away, as unbounded numbers: the attempts to acquire a
  permit that find one, and those that find none.
\<close>

fun attempts :: "(server \<Rightarrow> bool) \<Rightarrow> server_event list \<Rightarrow> server \<Rightarrow> nat" where
  "attempts P [] s = 0"
| "attempts P (e # es) s =
     (if e = TryAcquire \<and> P s then 1 else 0) +
     (case serve_event e s of None \<Rightarrow> 0 | Some s' \<Rightarrow> attempts P es s')"

definition admitted :: "server_event list \<Rightarrow> server \<Rightarrow> nat" where
  "admitted = attempts (\<lambda>s. permits s > 0)"

definition turned_away :: "server_event list \<Rightarrow> server \<Rightarrow> nat" where
  "turned_away = attempts (\<lambda>s. permits s = 0)"

lemma serve_event_counts:
  assumes "serve_event e s = Some s'"
  shows "accepted s' = accepted s + (if e = TryAcquire \<and> permits s > 0 then 1 else 0) \<and>
    refused s' = refused s + (if e = TryAcquire \<and> permits s = 0 then 1 else 0) \<and>
    (if e = TryAcquire then 1 else 0) + undecided s' = undecided s + (if e = Accept then 1 else 0) \<and>
    join_set_len s' \<le> join_set_len s + (if e = TryAcquire \<and> permits s > 0 then 1 else 0)"
  using assms
proof (cases rule: serve_event_cases)
  case accept
  then show ?thesis by (cases e) (auto simp: undecided_def join_set_len_def split: if_splits)
next
  case task
  then show ?thesis by (cases e) (auto simp: undecided_def join_set_len_def split: if_splits)
next
  case drain
  then show ?thesis by (cases e) (auto simp: undecided_def join_set_len_def returned_def split: if_splits)
qed

lemma serve_run_counts:
  "serve_run es s = Some s' \<Longrightarrow>
     accepted s' = accepted s + of_nat (admitted es s) \<and> refused s' = refused s + of_nat (turned_away es s) \<and>
     admitted es s + turned_away es s + undecided s' = undecided s + count_list es Accept \<and>
     join_set_len s' \<le> join_set_len s + admitted es s"
proof (induction es arbitrary: s)
  case (Cons e es)
  then obtain s1 where s1: "serve_event e s = Some s1" "serve_run es s1 = Some s'"
    by (auto split: option.splits)
  have "attempts P (e # es) s = (if e = TryAcquire \<and> P s then 1 else 0) + attempts P es s1" for P
    using s1(1) by simp
  with Cons.IH [OF s1(2)] serve_event_counts [OF s1(1)] show ?case
    unfolding admitted_def turned_away_def by auto
qed (simp add: admitted_def turned_away_def)

text \<open>What holds of the outcome when \<open>serve\<close> has returned.\<close>

definition outcome_inv :: "server \<Rightarrow> bool" where
  "outcome_inv s \<longleftrightarrow>
     (\<forall>out. pc s = Returned out \<longrightarrow>
        so_accepted out = accepted s \<and> so_refused out = refused s \<and>
        (drained out \<longleftrightarrow> join_set_len s = 0) \<and> abandoned out = join_set_len s)"

lemma outcome_inv_event:
  assumes "serve_event e s = Some s'" "outcome_inv s"
  shows "outcome_inv s'"
  using assms(1)
proof (cases rule: serve_event_cases)
  case accept
  then show ?thesis using assms(2)
    by (cases e) (auto simp: outcome_inv_def join_set_len_def split: if_splits)
next
  case task
  then show ?thesis using assms(2)
    by (cases e) (auto simp: outcome_inv_def join_set_len_def is_returned_def split: if_splits serve_pc.splits)
next
  case drain
  then show ?thesis using assms(2)
    by (cases e) (auto simp: outcome_inv_def join_set_len_def returned_def split: if_splits)
qed

lemma serve_run_outcome: "serve_run es s = Some s' \<Longrightarrow> outcome_inv s \<Longrightarrow> outcome_inv s'"
  by (induction es arbitrary: s) (auto split: option.splits dest: outcome_inv_event)

text \<open>A connection that has finished and given its permit back, but has not been joined, counts as left.\<close>

lemma finished_counts_as_abandoned:
  assumes "0 < max_connections options"
  shows "\<exists>events s out. serve_run events (serve_init options) = Some s \<and> pc s = Returned out \<and>
    \<not> drained out \<and> abandoned out = 1 \<and> serving s = 0 \<and> releasing s = 0"
proof -
  let ?events = "[Accept, TryJoinNone, TryAcquire, Shutdown, TryJoinNone, DropPermit, TaskFinished, GraceExpired]"
  obtain s where "serve_run ?events (serve_init options) = Some s"
      "pc s = Returned \<lparr>so_accepted = 1, so_refused = 0, drained = False, abandoned = 1\<rparr>"
      "serving s = 0" "releasing s = 0"
    using assms by (simp add: serve_event_def serve_init_def join_set_len_def is_returned_def returned_def)
  then show ?thesis by (intro exI [of _ ?events] exI [of _ s] exI) auto
qed

text \<open>
  C32: what the report of \<open>serve\<close> says. Every peer taken from the listener was admitted or turned away;
  \<open>accepted\<close> and \<open>refused\<close> are the numbers of them, modulo \<open>2 ^ 64\<close>. \<open>abandoned\<close> is the number of tasks
  left in the \<open>JoinSet\<close>, at most the number admitted, and \<open>drained\<close> is set exactly if it is zero. These
  tasks include those that have finished but have not been joined: with any positive cap, there is a run
  that reports one connection as abandoned and the drain as incomplete although no connection is running.
\<close>

theorem serve_outcome_exact:
  assumes "serve_run events (serve_init options) = Some s" "pc s = Returned out"
  shows "admitted events (serve_init options) + turned_away events (serve_init options) = count_list events Accept \<and>
    so_accepted out = of_nat (admitted events (serve_init options)) \<and>
    so_refused out = of_nat (turned_away events (serve_init options)) \<and>
    (drained out \<longleftrightarrow> abandoned out = 0) \<and> abandoned out = serving s + releasing s + finished s \<and>
    abandoned out \<le> admitted events (serve_init options) \<and>
    (0 < max_connections options \<longrightarrow>
      (\<exists>events' s' out'. serve_run events' (serve_init options) = Some s' \<and> pc s' = Returned out' \<and>
        \<not> drained out' \<and> abandoned out' = 1 \<and> serving s' = 0 \<and> releasing s' = 0))"
proof -
  have "outcome_inv (serve_init options)"
    by (simp add: outcome_inv_def serve_init_def)
  with assms(1) have "outcome_inv s" by (rule serve_run_outcome)
  then show ?thesis
    using serve_run_counts [OF assms(1)] assms(2) finished_counts_as_abandoned [of options]
    by (simp add: outcome_inv_def join_set_len_def serve_init_def undecided_def)
qed

theorem serve_outcome_exact_witness:
  "serve_run [Accept, TryJoinNone, TryAcquire, Shutdown, TryJoinNone, GraceExpired]
     (serve_init \<lparr>max_connections = 1, shutdown_grace = 5\<rparr>) =
     Some \<lparr>pc = Returned \<lparr>so_accepted = 1, so_refused = 0, drained = False, abandoned = 1\<rparr>,
       permits = 0, serving = 1, releasing = 0, finished = 0, accepted = 1, refused = 0\<rparr> \<and>
   abandoned \<lparr>so_accepted = 1, so_refused = 0, drained = False, abandoned = 1\<rparr> = 1 + 0 + 0 \<and>
   (\<exists>events' s' out'. serve_run events' (serve_init \<lparr>max_connections = 1, shutdown_grace = 5\<rparr>) = Some s' \<and>
      pc s' = Returned out' \<and> \<not> drained out' \<and> abandoned out' = 1 \<and> serving s' = 0 \<and> releasing s' = 0)"
proof -
  have r: "serve_run [Accept, TryJoinNone, TryAcquire, Shutdown, TryJoinNone, GraceExpired]
     (serve_init \<lparr>max_connections = 1, shutdown_grace = 5\<rparr>) =
     Some \<lparr>pc = Returned \<lparr>so_accepted = 1, so_refused = 0, drained = False, abandoned = 1\<rparr>,
       permits = 0, serving = 1, releasing = 0, finished = 0, accepted = 1, refused = 0\<rparr>"
    by (simp add: serve_event_def serve_init_def join_set_len_def is_returned_def returned_def)
  with serve_outcome_exact [OF r] show ?thesis by simp
qed

subsection \<open>Draining\<close>

definition in_drain :: "server \<Rightarrow> bool" where
  "in_drain s \<longleftrightarrow> pc s = DrainReaping \<or> pc s = Draining"

definition drain_measure :: "server \<Rightarrow> nat" where
  "drain_measure s = 3 * serving s + 2 * releasing s + finished s +
     (if pc s = DrainReaping then 2 else if pc s = Draining then 1 else 0)"

lemma drain_step:
  assumes "serve_event e s = Some s'" "in_drain s \<or> is_returned s"
  shows "(in_drain s' \<or> is_returned s') \<and> drain_measure s' < drain_measure s \<and>
    accepted s' = accepted s \<and> refused s' = refused s"
  using assms(1)
proof (cases rule: serve_event_cases)
  case accept
  then show ?thesis using assms(2)
    by (cases e) (auto simp: in_drain_def is_returned_def split: if_splits)
next
  case task
  then show ?thesis using assms(2)
    by (cases e) (auto simp: in_drain_def is_returned_def drain_measure_def split: if_splits)
next
  case drain
  then show ?thesis using assms(2)
    by (cases e) (auto simp: in_drain_def is_returned_def drain_measure_def returned_def join_set_len_def
        split: if_splits)
qed

lemma drain_run:
  "serve_run es s = Some s' \<Longrightarrow> in_drain s \<or> is_returned s \<Longrightarrow>
     length es \<le> drain_measure s \<and> (in_drain s' \<or> is_returned s') \<and>
     accepted s' = accepted s \<and> refused s' = refused s"
proof (induction es arbitrary: s)
  case (Cons e es)
  then obtain s1 where s1: "serve_event e s = Some s1" "serve_run es s1 = Some s'"
    by (auto split: option.splits)
  note step = drain_step [OF s1(1) Cons.prems(2)]
  with Cons.IH [OF s1(2)] show ?case by auto
qed simp

lemma drain_progress:
  assumes "in_drain s"
  shows "\<exists>e s'. serve_event e s = Some s'"
proof (cases "finished s = 0")
  case True
  then have "serve_event (if pc s = DrainReaping then TryJoinNone
      else if join_set_len s = 0 then JoinNextNone else GraceExpired) s \<noteq> None"
    using assms by (auto simp: in_drain_def serve_event_def)
  then show ?thesis by blast
next
  case False
  then have "serve_event (if pc s = DrainReaping then TryJoinSome else JoinNextSome) s \<noteq> None"
    using assms by (auto simp: in_drain_def serve_event_def)
  then show ?thesis by blast
qed

text \<open>
  C33: shutting down always ends. Once draining has begun, every execution is finite, with at most
  three steps per connection and two more, no new connection is admitted, and until \<open>serve\<close> has
  returned there is always a step to take: the loop cannot block for ever.
\<close>

theorem drain_ends:
  assumes "in_drain s" "serve_run events s = Some s'"
  shows "length events \<le> 3 * serving s + 2 * releasing s + finished s + 2 \<and>
    accepted s' = accepted s \<and> refused s' = refused s \<and>
    (is_returned s' \<or> (\<exists>e s''. serve_event e s' = Some s''))"
proof -
  note r = drain_run [OF assms(2) disjI1 [OF assms(1)]]
  then have "length events \<le> 3 * serving s + 2 * releasing s + finished s + 2"
    by (auto simp: drain_measure_def split: if_splits)
  with r drain_progress [of s'] show ?thesis by blast
qed

theorem drain_ends_witness:
  "length [TryJoinNone, DropPermit, TaskFinished, JoinNextSome, JoinNextNone] \<le> 3 * 1 + 2 * 0 + 0 + (2 :: nat) \<and>
   serve_run [TryJoinNone, DropPermit, TaskFinished, JoinNextSome, JoinNextNone]
     \<lparr>pc = DrainReaping, permits = 0, serving = 1, releasing = 0, finished = 0, accepted = 1, refused = 0\<rparr> =
   Some \<lparr>pc = Returned \<lparr>so_accepted = 1, so_refused = 0, drained = True, abandoned = 0\<rparr>,
     permits = 1, serving = 0, releasing = 0, finished = 0, accepted = 1, refused = 0\<rparr>"
proof -
  let ?s = "\<lparr>pc = DrainReaping, permits = 0, serving = 1, releasing = 0, finished = 0, accepted = 1, refused = 0\<rparr>"
  have r: "serve_run [TryJoinNone, DropPermit, TaskFinished, JoinNextSome, JoinNextNone] ?s =
      Some \<lparr>pc = Returned \<lparr>so_accepted = 1, so_refused = 0, drained = True, abandoned = 0\<rparr>,
        permits = 1, serving = 0, releasing = 0, finished = 0, accepted = 1, refused = 0\<rparr>"
    by (simp add: serve_event_def join_set_len_def is_returned_def returned_def)
  have "in_drain ?s" by (simp add: in_drain_def)
  from drain_ends [OF this r] r show ?thesis by simp
qed

end
