(* ===== verification/Session.thy ===== *)
theory Session
  imports Server
begin

text \<open>
  \<open>Connection::run\<close> over bytes. \<open>tokio_util::codec::Framed\<close>, which stands between the socket and the
  decoder, is outside the repository; what the read loop relies on is its documented contract: it
  offers its buffer to the decoder until the decoder asks for more, then reads; at the end of the
  stream it reports the bytes of an unfinished frame as an I/O error and otherwise ends. The decoder
  is consulted with the codec as the handlers left it, so a frame that arrives together with the one
  that switches compression on is decoded in the new format. Every statement holds for each of the
  parameters: the environment, the decompressor, the error reported for an unfinished frame and the
  events of the socket.
\<close>

text \<open>The frames in the buffer, each decoded with the codec the handlers of the earlier ones left.\<close>

function drive :: "environment \<Rightarrow> inflater \<Rightarrow> connection \<Rightarrow> byte list \<Rightarrow>
    (net_error + unit) option \<times> connection \<times> byte list" where
  "drive env inflate c buf =
     (case codec_decode inflate (codec c) buf of
        (Inl e, rest, _) \<Rightarrow> (Some (Inl (Protocol e)), c, rest)
      | (Inr None, rest, _) \<Rightarrow> (None, c, rest)
      | (Inr (Some frame), rest, _) \<Rightarrow>
          (case handle env frame c of
             (Inl e, c) \<Rightarrow> (Some (Inl e), c, rest)
           | (Inr Close, c) \<Rightarrow> (Some (Inr ()), c, rest)
           | (Inr Continue, c) \<Rightarrow> drive env inflate c rest))"
  by pat_completeness auto
termination
  by (relation "measure (\<lambda>(_, _, _, buf). length buf)") (auto dest: codec_decode_progress [OF sym])

declare drive.simps [simp del]

datatype stream_event = Chunk "byte list" | Eof | ReadError io_error | Quiet

text \<open>\<open>None\<close>: still waiting for the socket.\<close>

fun run_bytes :: "environment \<Rightarrow> inflater \<Rightarrow> io_error \<Rightarrow> connection \<Rightarrow> byte list \<Rightarrow> stream_event list \<Rightarrow>
    (net_error + unit) option \<times> connection" where
  "run_bytes env inflate unfinished c buf [] = (None, c)"
| "run_bytes env inflate unfinished c buf (Chunk bs # events) =
     (case drive env inflate c (buf @ bs) of
        (Some r, c, _) \<Rightarrow> (Some r, c)
      | (None, c, rest) \<Rightarrow> run_bytes env inflate unfinished c rest events)"
| "run_bytes env inflate unfinished c buf (Eof # _) =
     (Some (if buf = [] then Inr () else Inl (Protocol (Io unfinished))), c)"
| "run_bytes env inflate unfinished c buf (ReadError e # _) = (Some (Inl (Protocol (Io e))), c)"
| "run_bytes env inflate unfinished c buf (Quiet # _) = (Some (Inl Timeout), c)"

subsection \<open>Driving the decoder\<close>

text \<open>The steps of \<open>drive\<close>, as rules.\<close>

lemma drive_cases [case_names bad wait fails closes continues]:
  obtains e rest k where "codec_decode inflate (codec c) buf = (Inl e, rest, k)"
      "drive env inflate c buf = (Some (Inl (Protocol e)), c, rest)"
  | k where "codec_decode inflate (codec c) buf = (Inr None, buf, k)"
      "drive env inflate c buf = (None, c, buf)"
  | frame rest k e c' where "codec_decode inflate (codec c) buf = (Inr (Some frame), rest, k)"
      "handle env frame c = (Inl e, c')" "drive env inflate c buf = (Some (Inl e), c', rest)"
  | frame rest k c' where "codec_decode inflate (codec c) buf = (Inr (Some frame), rest, k)"
      "handle env frame c = (Inr Close, c')" "drive env inflate c buf = (Some (Inr ()), c', rest)"
  | frame rest k c' where "codec_decode inflate (codec c) buf = (Inr (Some frame), rest, k)"
      "handle env frame c = (Inr Continue, c')" "drive env inflate c buf = drive env inflate c' rest"
proof -
  obtain r rest k where d: "codec_decode inflate (codec c) buf = (r, rest, k)"
    by (cases "codec_decode inflate (codec c) buf")
  consider e where "r = Inl e" | "r = Inr None" | frame where "r = Inr (Some frame)" by (cases r) auto
  then show thesis
  proof cases
    case 1
    with d show thesis by (intro that(1)) (simp_all add: drive.simps [of env inflate c buf])
  next
    case 2
    with d codec_decode_wait [of inflate "codec c" buf rest k] show thesis
      by (intro that(2)) (simp_all add: drive.simps [of env inflate c buf])
  next
    case (3 frame)
    obtain h c' where h: "handle env frame c = (h, c')" by (cases "handle env frame c")
    consider e where "h = Inl e" | "h = Inr Close" | "h = Inr Continue" by (cases h) (auto intro: flow.exhaust)
    then show thesis
      by cases (use d h 3 that(3-5) in \<open>simp_all add: drive.simps [of env inflate c buf]\<close>)
  qed
qed

lemma drive_extend:
  "drive env inflate c buf = (r, c', rest) \<Longrightarrow>
     drive env inflate c (buf @ ys) =
       (case r of Some _ \<Rightarrow> (r, c', rest @ ys) | None \<Rightarrow> drive env inflate c' (rest @ ys))"
proof (induction env inflate c buf rule: drive.induct)
  case (1 env inflate c buf)
  show ?case
  proof (cases rule: drive_cases [where env = env and inflate = inflate and c = c and buf = buf])
    case (continues frame src k d)
    with "1.IH" [OF continues(1) [symmetric] refl refl refl continues(2) [symmetric] refl refl] "1.prems"
      codec_decode_extend [OF continues(1), of ys]
    show ?thesis by (simp add: drive.simps [of env inflate c "buf @ ys"])
  qed (use "1.prems" codec_decode_extend [of inflate "codec c" buf] in
      \<open>auto simp: drive.simps [of env inflate c "buf @ ys"]\<close>)
qed

lemma codec_decode_wait_bound:
  assumes "codec_decode inflate c src = (Inr None, src', k)"
  shows "length src < MAX_VARINT_LEN + MAX_PACKET_SIZE"
proof (cases rule: codec_decode_cases [where src = src and inflate = inflate and c = c])
  case wait
  then have "dropWhile continues src = []" "length (takeWhile continues src) < 5"
    by (auto simp: read_varint_slice_eq read_varint_spec split: sum.splits if_splits list.splits)
  then have "length src < 5" by (metis append_Nil2 takeWhile_dropWhile_id)
  then show ?thesis by (simp add: MAX_VARINT_LEN_def)
next
  case (incomplete d j n)
  then obtain rest where "read_varint src = Inr (d, rest)" "j = length src - length rest"
    by (auto simp: read_varint_slice_eq split: sum.splits if_splits)
  with read_varint_shrinks [of src d rest] have "j \<le> 5" by auto
  with incomplete show ?thesis by (simp add: MAX_VARINT_LEN_def)
qed (use assms in \<open>auto simp: map_sum_def split: sum.splits\<close>)

lemma drive_rest_waits:
  "drive env inflate c buf = (None, c', rest) \<Longrightarrow>
     drive env inflate c' rest = (None, c', rest) \<and> length rest < MAX_VARINT_LEN + MAX_PACKET_SIZE"
proof (induction env inflate c buf rule: drive.induct)
  case (1 env inflate c buf)
  show ?case
  proof (cases rule: drive_cases [where env = env and inflate = inflate and c = c and buf = buf])
    case (wait k)
    with "1.prems" codec_decode_wait_bound [OF wait(1)] show ?thesis by simp
  next
    case (continues frame src k d)
    with "1.IH" [OF continues(1) [symmetric] refl refl refl continues(2) [symmetric] refl refl] "1.prems"
    show ?thesis by simp
  qed (use "1.prems" in auto)
qed

lemma run_bytes_chunks:
  assumes "drive env inflate c buf = (None, c, buf)"
  shows "run_bytes env inflate unfinished c buf (map Chunk chunks @ events) =
     (case drive env inflate c (buf @ concat chunks) of
        (Some r, c, _) \<Rightarrow> (Some r, c)
      | (None, c, rest) \<Rightarrow> run_bytes env inflate unfinished c rest events)"
  using assms
proof (induction chunks arbitrary: c buf)
  case (Cons bs chunks)
  obtain r c' rest where d: "drive env inflate c (buf @ bs) = (r, c', rest)"
    by (cases "drive env inflate c (buf @ bs)")
  show ?case
  proof (cases r)
    case None
    with d drive_rest_waits [of env inflate c "buf @ bs"] have "drive env inflate c' rest = (None, c', rest)"
      by blast
    with Cons.IH [OF this] d None drive_extend [OF d, of "concat chunks"] show ?thesis by simp
  qed (use d drive_extend [OF d, of "concat chunks"] in simp)
qed simp

lemma drive_nothing [simp]: "drive env inflate c [] = (None, c, [])"
  by (simp add: drive.simps codec_decode_def read_varint_slice_eq read_varint_spec)

text \<open>One frame of a dialogue: bytes that read as a packet which the handlers take.\<close>

lemma drive_step:
  assumes "reads_as inflate (compression_threshold (codec c)) bs P x"
    and handled: "\<And>raw. raw_id raw = ID P \<Longrightarrow> decode_as P raw = Inr x \<Longrightarrow>
      \<exists>c'. handle env raw c = (Inr f, c') \<and> Q c'"
  shows "\<exists>c'. Q c' \<and> (\<forall>rest. drive env inflate c (bs @ rest) =
      (if f = Continue then drive env inflate c' rest else (Some (Inr ()), c', rest)))"
proof -
  have "\<exists>raw k. codec_decode inflate (codec c) (bs @ []) = (Inr (Some raw), [], k) \<and>
      raw_id raw = ID P \<and> decode_as P raw = Inr x"
    using assms(1) unfolding reads_as_def by blast
  then obtain raw k where raw: "codec_decode inflate (codec c) bs = (Inr (Some raw), [], k)"
      "raw_id raw = ID P" "decode_as P raw = Inr x" by auto
  obtain c' where "handle env raw c = (Inr f, c')" "Q c'" using handled [OF raw(2,3)] by blast
  then show ?thesis
    using codec_decode_extend [OF raw(1)]
    by (intro exI [of _ c']) (cases f; simp add: drive.simps [of env inflate c "bs @ rest" for rest])
qed

lemma serverbound_ids:
  "ID Handshake = 0" "ID StatusRequest = 0" "ID PingRequest = 1" "ID LoginStart = 0" "ID LoginAcknowledged = 3"
  by (simp_all add: packet_defs)

lemma run_bytes_drive:
  "drive env inflate c (concat chunks) = (r, c', rest) \<Longrightarrow>
     run_bytes env inflate unfinished c [] (map Chunk chunks) = (r, c')"
  using run_bytes_chunks [of env inflate c "[]" unfinished chunks "[]"] by (simp split: option.splits)

subsection \<open>The read loop over bytes is the read loop over frames\<close>

text \<open>
  The events that \<open>Framed\<close> hands to \<open>run\<close> for a buffer: the frames until the decoder waits or fails or a
  handler ends the connection.
\<close>

function drive_events :: "environment \<Rightarrow> inflater \<Rightarrow> connection \<Rightarrow> byte list \<Rightarrow> read_event list" where
  "drive_events env inflate c buf =
     (case codec_decode inflate (codec c) buf of
        (Inl e, rest, _) \<Rightarrow> [Frame (Inl e)]
      | (Inr None, rest, _) \<Rightarrow> []
      | (Inr (Some frame), rest, _) \<Rightarrow>
          Frame (Inr frame) #
          (case handle env frame c of
             (Inr Continue, c) \<Rightarrow> drive_events env inflate c rest
           | _ \<Rightarrow> []))"
  by pat_completeness auto
termination
  by (relation "measure (\<lambda>(_, _, _, buf). length buf)") (auto dest: codec_decode_progress [OF sym])

declare drive_events.simps [simp del]

lemma run_append:
  "run env c (es @ fs) = (case run env c es of (Some r, c') \<Rightarrow> (Some r, c') | (None, c') \<Rightarrow> run env c' fs)"
  by (induction env c es rule: run.induct) (auto split: prod.splits sum.splits flow.splits)

lemma run_drive_events:
  "run env c (drive_events env inflate c buf) =
     (case drive env inflate c buf of (r, c', _) \<Rightarrow> (r, c')) \<and>
   Elapsed \<notin> set (drive_events env inflate c buf) \<and>
   (\<forall>m. Frame (Inl (Io m)) \<notin> set (drive_events env inflate c buf))"
proof (induction env inflate c buf rule: drive.induct)
  case (1 env inflate c buf)
  show ?case
  proof (cases rule: drive_cases [where env = env and inflate = inflate and c = c and buf = buf])
    case (bad e rest k)
    then show ?thesis
      using codec_decode_no_io [OF bad(1)] by (auto simp: drive_events.simps [of env inflate c buf])
  next
    case (continues frame src k d)
    with "1.IH" [OF continues(1) [symmetric] refl refl refl continues(2) [symmetric] refl refl]
    show ?thesis by (simp add: drive_events.simps [of env inflate c buf])
  qed (simp_all add: drive_events.simps [of env inflate c buf])
qed

fun socket_events :: "environment \<Rightarrow> inflater \<Rightarrow> io_error \<Rightarrow> connection \<Rightarrow> byte list \<Rightarrow> stream_event list \<Rightarrow>
    read_event list" where
  "socket_events env inflate unfinished c buf [] = []"
| "socket_events env inflate unfinished c buf (Chunk bs # events) =
     drive_events env inflate c (buf @ bs) @
     (case drive env inflate c (buf @ bs) of
        (Some _, _, _) \<Rightarrow> []
      | (None, c, rest) \<Rightarrow> socket_events env inflate unfinished c rest events)"
| "socket_events env inflate unfinished c buf (Eof # _) =
     [if buf = [] then StreamEnd else Frame (Inl (Io unfinished))]"
| "socket_events env inflate unfinished c buf (ReadError e # _) = [Frame (Inl (Io e))]"
| "socket_events env inflate unfinished c buf (Quiet # _) = [Elapsed]"

lemma run_bytes_run:
  "run_bytes env inflate unfinished c buf events =
     run env c (socket_events env inflate unfinished c buf events)"
proof (induction env inflate unfinished c buf events rule: socket_events.induct)
  case (2 env inflate unfinished c buf bs events)
  obtain r c' rest where d: "drive env inflate c (buf @ bs) = (r, c', rest)"
    by (cases "drive env inflate c (buf @ bs)")
  with run_drive_events [of env c inflate "buf @ bs"]
  have "run env c (drive_events env inflate c (buf @ bs)) = (r, c')" by simp
  with d "2.IH" [OF d [symmetric]] show ?case
    by (cases r) (simp_all add: run_append)
qed simp_all

lemma socket_noise:
  "Elapsed \<in> set (socket_events env inflate unfinished c buf events) \<Longrightarrow> Quiet \<in> set events"
  "Frame (Inl (Io m)) \<in> set (socket_events env inflate unfinished c buf events) \<Longrightarrow>
     Eof \<in> set events \<or> (\<exists>e. ReadError e \<in> set events)"
  by (induction env inflate unfinished c buf events rule: socket_events.induct)
     (use run_drive_events in \<open>auto split: prod.splits option.splits if_splits\<close>)

subsection \<open>Properties\<close>

text \<open>A length prefix whose frame has not come yet, for the concrete instances below.\<close>

lemma decode_half_frame:
  "codec_decode stored_inflate (codec (connection_new cfg)) [0x05] = (Inr None, [0x05], 5)"
  by (simp add: connection_new_def codec_new_def codec_decode_def read_varint_slice_eq read_varint_spec
      continues_def CONTINUATION_BIT_def PAYLOAD_MASK_def usize_try_from_i32_def MAX_PACKET_SIZE_def
      MAX_SPECULATIVE_RESERVE_def)

lemma drive_half_frame:
  "drive env stored_inflate (connection_new cfg) [0x05] = (None, connection_new cfg, [0x05])"
  by (simp add: drive.simps decode_half_frame)

lemma drive_events_half_frame: "drive_events env stored_inflate (connection_new cfg) [0x05] = []"
  by (simp add: drive_events.simps decode_half_frame)

text \<open>
  The read loop over bytes implements the read loop over frames: whatever the socket does, a connection
  ends as \<open>run\<close> does on the frames decoded from it, and in the same state. A sequence of frames is
  never cut short by a timeout or a read error that the socket did not report.
\<close>

theorem run_bytes_refines_run:
  "run_bytes env inflate unfinished c buf events =
     run env c (socket_events env inflate unfinished c buf events) \<and>
   (Elapsed \<in> set (socket_events env inflate unfinished c buf events) \<longrightarrow> Quiet \<in> set events) \<and>
   (Frame (Inl (Io m)) \<in> set (socket_events env inflate unfinished c buf events) \<longrightarrow>
      Eof \<in> set events \<or> (\<exists>e. ReadError e \<in> set events))"
  using run_bytes_run socket_noise by blast

theorem run_bytes_refines_run_witness:
  "run_bytes ideal_env stored_inflate [] (connection_new server_config_default) [] [Chunk [0x05], Eof] =
     run ideal_env (connection_new server_config_default) [Frame (Inl (Io []))] \<and>
   Eof \<in> set [Chunk [0x05], Eof]"
  using run_bytes_refines_run [of ideal_env stored_inflate "[]" "connection_new server_config_default" "[]"
      "[Chunk [0x05], Eof]" "[]"]
  by (simp add: drive_half_frame drive_events_half_frame)

text \<open>
  C6: How TCP cuts a client's bytes into segments does not matter to anything the server does: the result
  of the connection, its state and the bytes it sends are those of one segment holding them all, even
  where a frame that switches the codec shares its segment with frames in the new format.
\<close>

theorem segmentation_irrelevant:
  "run_bytes env inflate unfinished c [] (map Chunk chunks @ events) =
   run_bytes env inflate unfinished c [] (Chunk (concat chunks) # events)"
  by (simp add: run_bytes_chunks)

text \<open>
  C20: What a peer sends is never filed as noise: an error logged at \<open>debug\<close> means that the timer fired,
  that the socket failed or was closed inside a frame, or that flushing or the compressor failed. So
  whatever bytes come in, an error they cause is logged at \<open>warn\<close>: malformed frames, corrupt
  compressed data and protocol violations included.
\<close>

theorem peer_bytes_warned:
  assumes "run_bytes env inflate unfinished c buf events = (Some (Inl e), c')"
    and "run_connection_log (Inl e) = Some Log_Debug"
  shows "Quiet \<in> set events \<or> Eof \<in> set events \<or> (\<exists>m. ReadError m \<in> set events) \<or> transport_fault env"
proof -
  have "is_transport_noise e" using assms(2) by (simp add: run_connection_log_def split: if_splits)
  with assms(1) show ?thesis
    using noise_only_from_transport socket_noise unfolding run_bytes_run by blast
qed

theorem peer_bytes_warned_witness:
  "run_bytes ideal_env stored_inflate [] (connection_new server_config_default) [] [Chunk [0x05], Eof] =
     (Some (Inl (Protocol (Io []))), connection_new server_config_default) \<and>
   (Quiet \<in> set [Chunk [0x05], Eof] \<or> Eof \<in> set [Chunk [0x05], Eof] \<or>
    (\<exists>m. ReadError m \<in> set [Chunk [0x05], Eof]) \<or> transport_fault ideal_env)"
proof -
  have r: "run_bytes ideal_env stored_inflate [] (connection_new server_config_default) [] [Chunk [0x05], Eof] =
     (Some (Inl (Protocol (Io []))), connection_new server_config_default)"
    by (simp add: drive_half_frame)
  with peer_bytes_warned [OF r] show ?thesis by (simp add: run_connection_log_def)
qed

text \<open>
  C21: A peer that goes away. Between two reads the server holds less than one frame of the maximum size, so
  that is all a silent peer can make it keep. If the peer hangs up there, the connection ends normally
  and is not logged when no frame was begun, and with an error logged at \<open>debug\<close> when one was; the
  connection is left as the frames before it left it.
\<close>

theorem hangup:
  assumes "drive env inflate c (concat chunks) = (None, c', rest)"
  shows "length rest < MAX_VARINT_LEN + MAX_PACKET_SIZE \<and>
    run_bytes env inflate unfinished c [] (map Chunk chunks) = (None, c') \<and>
    (\<exists>r. run_bytes env inflate unfinished c [] (map Chunk chunks @ Eof # events) = (Some r, c') \<and>
       r = (if rest = [] then Inr () else Inl (Protocol (Io unfinished))) \<and>
       run_connection_log r = (if rest = [] then None else Some Log_Debug))"
  using assms drive_rest_waits [OF assms] run_bytes_chunks [of env inflate c "[]" unfinished chunks "[]"]
  by (simp add: run_bytes_chunks run_connection_log_def)

theorem hangup_witness:
  "length [0x05 :: byte] < MAX_VARINT_LEN + MAX_PACKET_SIZE \<and>
   (\<exists>r. run_bytes ideal_env stored_inflate [] (connection_new server_config_default) []
          (map Chunk [[], [0x05]] @ [Eof]) = (Some r, connection_new server_config_default) \<and>
      run_connection_log r = Some Log_Debug)"
  using hangup [of ideal_env stored_inflate "connection_new server_config_default" "[[], [0x05]]"
      "connection_new server_config_default" "[0x05]" "[]" "[]"]
  by (simp add: drive_half_frame)

end
