(* ===== verification/System.thy ===== *)
theory System
  imports Session
begin

text \<open>
  The server as a whole: the accept loop of \<open>crates/net/src/server.rs\<close> together with the connections it
  spawned, each a task with the \<open>Connection\<close> it owns, interleaved in any order. \<open>Server\<close> abstracts a
  task to whether it still holds its permit; here it is the connection itself, driven by the events of
  its own socket, so that what one peer does can be compared with what another one sees. A peer has
  its own transport, so the environment is a function of the task. Handling what was read, its answers
  included, is one step; a transport that does not take an answer is the subject of \<open>Timing\<close>.
\<close>

subsection \<open>Tasks\<close>

text \<open>
  The life of a task spawned for \<open>run_connection\<close>: it serves its connection, holding its permit, drops the
  permit, finishes, and is joined. \<open>result\<close> is what \<open>Connection::run\<close> returned, once it has.
\<close>

datatype phase = Serving | Releasing | Finished | Joined

record task =
  phase :: phase
  result :: "(net_error + unit) option"
  task_conn :: connection
  read_buffer :: "byte list"

definition spawn :: "server_config \<Rightarrow> task" where
  "spawn cfg = \<lparr>phase = Serving, result = None, task_conn = connection_new cfg, read_buffer = []\<rparr>"

text \<open>One event of the task's socket, while \<open>Connection::run\<close> has not returned.\<close>

fun task_step :: "environment \<Rightarrow> inflater \<Rightarrow> io_error \<Rightarrow> stream_event \<Rightarrow> task \<Rightarrow> task" where
  "task_step env inflate unfinished (Chunk bs) t =
     (case drive env inflate (task_conn t) (read_buffer t @ bs) of
        (r, c, rest) \<Rightarrow> t\<lparr>result := r, task_conn := c, read_buffer := rest\<rparr>)"
| "task_step env inflate unfinished Eof t =
     t\<lparr>result := Some (if read_buffer t = [] then Inr () else Inl (Protocol (Io unfinished)))\<rparr>"
| "task_step env inflate unfinished (ReadError e) t = t\<lparr>result := Some (Inl (Protocol (Io e)))\<rparr>"
| "task_step env inflate unfinished Quiet t = t\<lparr>result := Some (Inl Timeout)\<rparr>"

subsection \<open>The system\<close>

record system =
  sys_pc :: serve_pc
  sys_permits :: usize
  tasks :: "task list"
  sys_accepted :: u64
  sys_refused :: u64
  sys_log :: "(nat \<times> log_level) list"

definition sys_init :: "serve_options \<Rightarrow> system" where
  "sys_init options =
     \<lparr>sys_pc = Selecting, sys_permits = max_connections options, tasks = [], sys_accepted = 0,
      sys_refused = 0, sys_log = []\<rparr>"

definition in_phase :: "phase \<Rightarrow> system \<Rightarrow> nat" where
  "in_phase p s = length (filter (\<lambda>t. phase t = p) (tasks s))"

text \<open>\<open>connections.len()\<close>: every task that has not been joined.\<close>

definition live :: "system \<Rightarrow> nat" where
  "live s = in_phase Serving s + in_phase Releasing s + in_phase Finished s"

definition sys_running :: "system \<Rightarrow> bool" where
  "sys_running s \<longleftrightarrow> (case sys_pc s of Returned _ \<Rightarrow> False | _ \<Rightarrow> True)"

definition sys_return :: "bool \<Rightarrow> usize \<Rightarrow> system \<Rightarrow> system" where
  "sys_return d a s =
     s\<lparr>sys_pc := Returned \<lparr>so_accepted = sys_accepted s, so_refused = sys_refused s, drained = d, abandoned = a\<rparr>\<rparr>"

definition update_task :: "nat \<Rightarrow> (task \<Rightarrow> task) \<Rightarrow> system \<Rightarrow> system" where
  "update_task i f s = s\<lparr>tasks := (tasks s)[i := f (tasks s ! i)]\<rparr>"

text \<open>The steps of \<open>serve\<close> and \<open>drain\<close> that touch no task already spawned.\<close>

fun loop_step :: "server_config \<Rightarrow> server_event \<Rightarrow> system \<Rightarrow> system option" where
  "loop_step cfg Accept s = (if sys_pc s = Selecting then Some (s\<lparr>sys_pc := Reaping\<rparr>) else None)"
| "loop_step cfg AcceptError s = (if sys_pc s = Selecting then Some s else None)"
| "loop_step cfg TryJoinNone s =
     (if in_phase Finished s \<noteq> 0 then None
      else if sys_pc s = Reaping then Some (s\<lparr>sys_pc := Acquiring\<rparr>)
      else if sys_pc s = DrainReaping then
        Some (if live s = 0 then sys_return True 0 s else s\<lparr>sys_pc := Draining\<rparr>)
      else None)"
| "loop_step cfg TryAcquire s =
     (if sys_pc s = Acquiring then
        Some (if sys_permits s = 0 then s\<lparr>sys_pc := Selecting, sys_refused := sys_refused s + 1\<rparr>
              else s\<lparr>sys_pc := Selecting, sys_permits := sys_permits s - 1,
                     tasks := tasks s @ [spawn cfg], sys_accepted := sys_accepted s + 1\<rparr>)
      else None)"
| "loop_step cfg Shutdown s = (if sys_pc s = Selecting then Some (s\<lparr>sys_pc := DrainReaping\<rparr>) else None)"
| "loop_step cfg JoinNextNone s =
     (if sys_pc s = Draining \<and> live s = 0 then Some (sys_return True 0 s) else None)"
| "loop_step cfg GraceExpired s =
     (if sys_pc s = Draining \<and> live s > 0 then Some (sys_return False (live s) s) else None)"
| "loop_step cfg _ s = None"

text \<open>
  \<open>Loop\<close>: the accept loop. \<open>Reap i\<close>: it joins task \<open>i\<close>. \<open>Stream i ev\<close>: the socket of task \<open>i\<close>. \<open>Release i\<close>:
  \<open>run_connection\<close> logs how the connection ended and drops the permit. \<open>Finish i\<close>: the task is over.
\<close>

datatype system_event =
  Loop server_event | Reap nat | Stream nat stream_event | Release nat | Finish nat

fun sys_event :: "(nat \<Rightarrow> environment) \<Rightarrow> inflater \<Rightarrow> io_error \<Rightarrow> server_config \<Rightarrow> system_event \<Rightarrow> system \<Rightarrow>
    system option" where
  "sys_event env inflate unfinished cfg (Loop e) s = loop_step cfg e s"
| "sys_event env inflate unfinished cfg (Reap i) s =
     (if sys_pc s \<in> {Reaping, DrainReaping, Draining} \<and> i < length (tasks s) \<and> phase (tasks s ! i) = Finished
      then Some (update_task i (phase_update (\<lambda>_. Joined)) s) else None)"
| "sys_event env inflate unfinished cfg (Stream i ev) s =
     (if sys_running s \<and> i < length (tasks s) \<and> phase (tasks s ! i) = Serving \<and> result (tasks s ! i) = None
      then Some (update_task i (task_step (env i) inflate unfinished ev) s) else None)"
| "sys_event env inflate unfinished cfg (Release i) s =
     (if sys_running s \<and> i < length (tasks s) \<and> phase (tasks s ! i) = Serving then
        (case result (tasks s ! i) of
           None \<Rightarrow> None
         | Some r \<Rightarrow>
             Some ((update_task i (phase_update (\<lambda>_. Releasing)) s)
               \<lparr>sys_permits := sys_permits s + 1,
                sys_log := sys_log s @ (case run_connection_log r of None \<Rightarrow> [] | Some l \<Rightarrow> [(i, l)])\<rparr>))
      else None)"
| "sys_event env inflate unfinished cfg (Finish i) s =
     (if sys_running s \<and> i < length (tasks s) \<and> phase (tasks s ! i) = Releasing
      then Some (update_task i (phase_update (\<lambda>_. Finished)) s) else None)"

subsection \<open>Executions\<close>

fun run_events :: "('e \<Rightarrow> 's \<Rightarrow> 's option) \<Rightarrow> 'e list \<Rightarrow> 's \<Rightarrow> 's option" where
  "run_events step [] s = Some s"
| "run_events step (e # es) s = (case step e s of None \<Rightarrow> None | Some s' \<Rightarrow> run_events step es s')"

lemma run_events_append:
  "run_events step (es @ fs) s = (case run_events step es s of None \<Rightarrow> None | Some s' \<Rightarrow> run_events step fs s')"
  by (induction es arbitrary: s) (auto split: option.splits)

lemma run_events_snoc:
  "run_events step (es @ [e]) s = Some s' \<longleftrightarrow> (\<exists>t. run_events step es s = Some t \<and> step e t = Some s')"
  by (auto simp: run_events_append split: option.splits)

lemma serve_run_events: "serve_run = run_events serve_event"
proof (intro ext)
  show "serve_run es s = run_events serve_event es s" for es s
    by (induction es arbitrary: s) (auto split: option.splits)
qed

text \<open>
  The contract of a refinement between two machines: each step of the concrete one is a step of the
  abstract one, or invisible to it. Then every execution of the one is an execution of the other.
\<close>

locale event_refinement =
  fixes cstep :: "'e \<Rightarrow> 's \<Rightarrow> 's option"
    and astep :: "'f \<Rightarrow> 't \<Rightarrow> 't option"
    and abs_state :: "'s \<Rightarrow> 't"
    and abs_event :: "'s \<Rightarrow> 'e \<Rightarrow> 'f option"
  assumes simulates: "cstep e s = Some s' \<Longrightarrow>
    (case abs_event s e of
       None \<Rightarrow> abs_state s' = abs_state s
     | Some f \<Rightarrow> astep f (abs_state s) = Some (abs_state s'))"
begin

lemma run_simulates:
  "run_events cstep es s = Some s' \<Longrightarrow>
     \<exists>fs. run_events astep fs (abs_state s) = Some (abs_state s') \<and> length fs \<le> length es"
proof (induction es arbitrary: s)
  case (Cons e es)
  then obtain s1 where s1: "cstep e s = Some s1" "run_events cstep es s1 = Some s'"
    by (auto split: option.splits)
  then obtain fs where fs: "run_events astep fs (abs_state s1) = Some (abs_state s')" "length fs \<le> length es"
    using Cons.IH by blast
  show ?case
  proof (cases "abs_event s e")
    case None
    with simulates [OF s1(1)] fs show ?thesis by (intro exI [of _ fs]) simp
  next
    case (Some f)
    with simulates [OF s1(1)] fs show ?thesis by (intro exI [of _ "f # fs"]) simp
  qed
qed simp

end

subsection \<open>The system implements the accept loop\<close>

lemma length_filter_update:
  assumes "i < length xs"
  shows "length (filter P (xs[i := y])) + (if P (xs ! i) then 1 else 0) =
    length (filter P xs) + (if P y then 1 else 0)"
  using assms
proof (induction xs arbitrary: i)
  case (Cons x xs)
  show ?case
  proof (cases i)
    case (Suc k)
    with Cons.prems Cons.IH [of k] show ?thesis by simp
  qed simp
qed simp

definition abs_server :: "system \<Rightarrow> server" where
  "abs_server s =
     \<lparr>pc = sys_pc s, permits = sys_permits s, serving = in_phase Serving s, releasing = in_phase Releasing s,
      finished = in_phase Finished s, accepted = sys_accepted s, refused = sys_refused s\<rparr>"

fun abs_server_event :: "system \<Rightarrow> system_event \<Rightarrow> server_event option" where
  "abs_server_event s (Loop e) = Some e"
| "abs_server_event s (Reap i) = Some (if sys_pc s = Draining then JoinNextSome else TryJoinSome)"
| "abs_server_event s (Stream i ev) = None"
| "abs_server_event s (Release i) = Some DropPermit"
| "abs_server_event s (Finish i) = Some TaskFinished"

lemma update_task_simps [simp]:
  "sys_pc (update_task i f s) = sys_pc s" "sys_permits (update_task i f s) = sys_permits s"
  "sys_accepted (update_task i f s) = sys_accepted s" "sys_refused (update_task i f s) = sys_refused s"
  "sys_log (update_task i f s) = sys_log s" "length (tasks (update_task i f s)) = length (tasks s)"
  by (simp_all add: update_task_def)

lemma in_phase_update_task:
  "i < length (tasks s) \<Longrightarrow>
     in_phase p (update_task i f s) + (if phase (tasks s ! i) = p then 1 else 0) =
     in_phase p s + (if phase (f (tasks s ! i)) = p then 1 else 0)"
  using length_filter_update [of i "tasks s" "\<lambda>t. phase t = p"] by (simp add: in_phase_def update_task_def)

lemma phase_task_step [simp]: "phase (task_step env inflate unfinished ev t) = phase t"
  by (cases ev) (auto split: prod.splits)

lemma in_phase_tasks: "tasks s' = tasks s \<Longrightarrow> in_phase p s' = in_phase p s"
  by (simp add: in_phase_def)

text \<open>Moving one task from a phase to the next.\<close>

lemma in_phase_move:
  assumes "i < length (tasks s)" "phase (tasks s ! i) = q" "phase (f (tasks s ! i)) = q'" "q \<noteq> q'"
  shows "in_phase p (update_task i f s) =
    (if p = q then in_phase p s - 1 else if p = q' then in_phase p s + 1 else in_phase p s)"
    and "0 < in_phase q s"
  using in_phase_update_task [of i s p f] in_phase_update_task [of i s q f] assms by auto

text \<open>The abstraction of a state that differs from another outside its tasks.\<close>

lemma abs_server_pc: "abs_server (s\<lparr>sys_pc := q\<rparr>) = (abs_server s)\<lparr>pc := q\<rparr>"
  by (simp add: abs_server_def in_phase_def)

lemma abs_server_refused: "abs_server (s\<lparr>sys_refused := n\<rparr>) = (abs_server s)\<lparr>refused := n\<rparr>"
  by (simp add: abs_server_def in_phase_def)

lemma abs_server_sel [simp]:
  "pc (abs_server s) = sys_pc s" "permits (abs_server s) = sys_permits s"
  "finished (abs_server s) = in_phase Finished s" "accepted (abs_server s) = sys_accepted s"
  "refused (abs_server s) = sys_refused s" "join_set_len (abs_server s) = live s"
  "is_returned (abs_server s) \<longleftrightarrow> \<not> sys_running s"
  by (simp_all add: abs_server_def join_set_len_def live_def is_returned_def sys_running_def split: serve_pc.splits)

lemma abs_server_return: "abs_server (sys_return d a s) = returned (abs_server s) d a"
  by (simp add: sys_return_def returned_def abs_server_pc)

lemmas abs_loop = abs_server_pc abs_server_refused abs_server_return

lemma loop_step_simulates:
  "loop_step cfg e s = Some s' \<Longrightarrow> serve_event e (abs_server s) = Some (abs_server s')"
proof (cases e)
  case TryJoinNone
  assume "loop_step cfg e s = Some s'"
  with TryJoinNone show ?thesis by (auto simp: serve_event_def abs_loop split: if_splits)
next
  case TryAcquire
  assume "loop_step cfg e s = Some s'"
  with TryAcquire show ?thesis
    by (cases "sys_permits s = 0")
       (auto simp: serve_event_def abs_server_def in_phase_def spawn_def split: if_splits)
qed (auto simp: serve_event_def abs_loop split: if_splits)

lemma sys_event_simulates:
  assumes "sys_event env inflate unfinished cfg e s = Some s'"
  shows "case abs_server_event s e of
      None \<Rightarrow> abs_server s' = abs_server s
    | Some f \<Rightarrow> serve_event f (abs_server s) = Some (abs_server s')"
proof (cases e)
  case (Loop f)
  with assms show ?thesis by (simp add: loop_step_simulates)
next
  case (Reap i)
  with assms have i: "i < length (tasks s)" "phase (tasks s ! i) = Finished"
      and s': "sys_pc s \<in> {Reaping, DrainReaping, Draining}"
        "s' = update_task i (phase_update (\<lambda>_. Joined)) s"
    by (auto split: if_splits)
  note move = in_phase_move [OF i, of "phase_update (\<lambda>_. Joined)" Joined, simplified]
  from s' Reap move show ?thesis by (auto simp: serve_event_def abs_server_def)
next
  case (Stream i ev)
  with assms have "s' = update_task i (task_step (env i) inflate unfinished ev) s" "i < length (tasks s)"
    by (auto split: if_splits)
  with Stream in_phase_update_task [of i s _ "task_step (env i) inflate unfinished ev"]
  show ?thesis by (simp add: abs_server_def)
next
  case (Release i)
  with assms have i: "i < length (tasks s)" "phase (tasks s ! i) = Serving" and "sys_running s"
    by (auto split: if_splits)
  note move = in_phase_move [OF i, of "phase_update (\<lambda>_. Releasing)" Releasing, simplified]
  obtain l where "s' = (update_task i (phase_update (\<lambda>_. Releasing)) s)\<lparr>sys_permits := sys_permits s + 1, sys_log := l\<rparr>"
    using assms Release by (auto split: if_splits option.splits)
  with \<open>sys_running s\<close> Release move show ?thesis
    by (simp add: serve_event_def abs_server_def is_returned_def sys_running_def
        in_phase_tasks [of "u\<lparr>sys_permits := _, sys_log := _\<rparr>" u for u] split: serve_pc.splits)
next
  case (Finish i)
  with assms have i: "i < length (tasks s)" "phase (tasks s ! i) = Releasing"
      and s': "sys_running s" "s' = update_task i (phase_update (\<lambda>_. Finished)) s"
    by (auto split: if_splits)
  note move = in_phase_move [OF i, of "phase_update (\<lambda>_. Finished)" Finished, simplified]
  from s' Finish move show ?thesis
    by (simp add: serve_event_def abs_server_def is_returned_def sys_running_def split: serve_pc.splits)
qed

interpretation system_server: event_refinement "sys_event env inflate unfinished cfg" serve_event abs_server
    abs_server_event for env inflate unfinished cfg
  by unfold_locales (rule sys_event_simulates)

subsection \<open>What a task has seen\<close>

text \<open>The events of one socket, out of an execution of the whole.\<close>

fun stream_of :: "nat \<Rightarrow> system_event list \<Rightarrow> stream_event list" where
  "stream_of i [] = []"
| "stream_of i (Stream j ev # es) = (if j = i then ev # stream_of i es else stream_of i es)"
| "stream_of i (_ # es) = stream_of i es"

lemma stream_of_append [simp]: "stream_of i (es @ fs) = stream_of i es @ stream_of i fs"
  by (induction i es rule: stream_of.induct) simp_all

definition feed :: "environment \<Rightarrow> inflater \<Rightarrow> io_error \<Rightarrow> task \<Rightarrow> stream_event list \<Rightarrow> task" where
  "feed env inflate unfinished =
     foldl (\<lambda>t ev. if result t = None then task_step env inflate unfinished ev t else t)"

lemma feed_simps [simp]:
  "feed env inflate unfinished t [] = t"
  "feed env inflate unfinished t (evs @ [ev]) =
     (if result (feed env inflate unfinished t evs) = None
      then task_step env inflate unfinished ev (feed env inflate unfinished t evs)
      else feed env inflate unfinished t evs)"
  by (simp_all add: feed_def)

lemma feed_Cons:
  "feed env inflate unfinished t (ev # evs) =
     feed env inflate unfinished (if result t = None then task_step env inflate unfinished ev t else t) evs"
  by (simp add: feed_def)

lemma feed_done: "result t \<noteq> None \<Longrightarrow> feed env inflate unfinished t evs = t"
  by (induction evs) (auto simp: feed_Cons)

lemma feed_run_bytes:
  "result t = None \<Longrightarrow>
     run_bytes env inflate unfinished (task_conn t) (read_buffer t) evs =
       (result (feed env inflate unfinished t evs), task_conn (feed env inflate unfinished t evs))"
proof (induction evs arbitrary: t)
  case (Cons ev evs)
  show ?case
  proof (cases ev)
    case (Chunk bs)
    obtain r c rest where d: "drive env inflate (task_conn t) (read_buffer t @ bs) = (r, c, rest)"
      by (cases "drive env inflate (task_conn t) (read_buffer t @ bs)")
    show ?thesis
    proof (cases r)
      case None
      with Chunk d Cons.prems
        Cons.IH [of "t\<lparr>result := None, task_conn := c, read_buffer := rest\<rparr>"] show ?thesis
        by (simp add: feed_Cons)
    qed (use Chunk d Cons.prems in \<open>simp add: feed_Cons feed_done\<close>)
  qed (use Cons.prems in \<open>simp_all add: feed_Cons feed_done\<close>)
qed simp

text \<open>What of a task its socket decides: everything but its phase.\<close>

definition view :: "task \<Rightarrow> (net_error + unit) option \<times> connection \<times> byte list" where
  "view t = (result t, task_conn t, read_buffer t)"

lemma view_phase [simp]: "view (t\<lparr>phase := p\<rparr>) = view t"
  by (simp add: view_def)

lemma view_task_step:
  "view t = view u \<Longrightarrow> view (task_step env inflate unfinished ev t) = view (task_step env inflate unfinished ev u)"
  by (cases ev) (auto simp: view_def split: prod.splits)

text \<open>A task is what its own socket made of it, whatever happened elsewhere.\<close>

definition own_history :: "(nat \<Rightarrow> environment) \<Rightarrow> inflater \<Rightarrow> io_error \<Rightarrow> server_config \<Rightarrow> system_event list \<Rightarrow>
    system \<Rightarrow> bool" where
  "own_history env inflate unfinished cfg events s \<longleftrightarrow>
     (\<forall>i < length (tasks s). view (tasks s ! i) =
        view (feed (env i) inflate unfinished (spawn cfg) (stream_of i events))) \<and>
     (\<forall>i \<ge> length (tasks s). stream_of i events = [])"

lemma own_history_phase:
  assumes "own_history env inflate unfinished cfg events s" "\<And>i. stream_of i [e] = []"
    and "tasks s' = tasks (update_task j (phase_update (\<lambda>_. q)) s)"
  shows "own_history env inflate unfinished cfg (events @ [e]) s'"
proof -
  have "view ((tasks s)[j := (tasks s ! j)\<lparr>phase := q\<rparr>] ! i) = view (tasks s ! i)" for i
    by (cases "j < length (tasks s)"; cases "i = j") (simp_all add: list_update_beyond)
  with assms show ?thesis by (simp add: own_history_def update_task_def)
qed

lemma own_history_tasks:
  assumes "own_history env inflate unfinished cfg events s" "\<And>i. stream_of i [e] = []"
    and "tasks s' = tasks s \<or> tasks s' = tasks s @ [spawn cfg]"
  shows "own_history env inflate unfinished cfg (events @ [e]) s'"
  using assms by (auto simp: own_history_def nth_append less_Suc_eq)

lemma own_history_stream:
  assumes h: "own_history env inflate unfinished cfg events s"
    and "i < length (tasks s)" "result (tasks s ! i) = None"
  shows "own_history env inflate unfinished cfg (events @ [Stream i ev])
    (update_task i (task_step (env i) inflate unfinished ev) s)"
proof -
  let ?t = "feed (env i) inflate unfinished (spawn cfg) (stream_of i events)"
  have v: "view (tasks s ! i) = view ?t" using h assms(2) by (simp add: own_history_def)
  then have "result ?t = None" using assms(3) by (simp add: view_def)
  with view_task_step [OF v] h assms(2) show ?thesis
    by (auto simp: own_history_def update_task_def nth_list_update)
qed

lemma loop_step_tasks:
  "loop_step cfg e s = Some s' \<Longrightarrow> tasks s' = tasks s \<or> tasks s' = tasks s @ [spawn cfg]"
  by (cases e) (auto simp: sys_return_def split: if_splits)

lemma own_history_event:
  assumes h: "own_history env inflate unfinished cfg events s"
    and e: "sys_event env inflate unfinished cfg e s = Some s'"
  shows "own_history env inflate unfinished cfg (events @ [e]) s'"
proof (cases e)
  case (Loop f)
  with e have "tasks s' = tasks s \<or> tasks s' = tasks s @ [spawn cfg]" by (auto dest: loop_step_tasks)
  with h Loop show ?thesis by (intro own_history_tasks) auto
next
  case (Reap i)
  with e have "tasks s' = tasks (update_task i (phase_update (\<lambda>_. Joined)) s)" by (auto split: if_splits)
  with h Reap show ?thesis by (intro own_history_phase) auto
next
  case (Stream i ev)
  with e have "s' = update_task i (task_step (env i) inflate unfinished ev) s" "i < length (tasks s)"
      "result (tasks s ! i) = None" by (auto split: if_splits)
  with h Stream show ?thesis by (simp add: own_history_stream)
next
  case (Release i)
  with e have "tasks s' = tasks (update_task i (phase_update (\<lambda>_. Releasing)) s)"
    by (auto split: if_splits option.splits)
  with h Release show ?thesis by (intro own_history_phase) auto
next
  case (Finish i)
  with e have "tasks s' = tasks (update_task i (phase_update (\<lambda>_. Finished)) s)" by (auto split: if_splits)
  with h Finish show ?thesis by (intro own_history_phase) auto
qed

lemma own_history_run:
  "run_events (sys_event env inflate unfinished cfg) events (sys_init options) = Some s \<Longrightarrow>
     own_history env inflate unfinished cfg events s"
proof (induction events arbitrary: s rule: rev_induct)
  case Nil
  then show ?case by (auto simp: own_history_def sys_init_def)
next
  case (snoc e events)
  then show ?case using own_history_event by (auto simp: run_events_snoc)
qed

lemma task_run_bytes:
  assumes "run_events (sys_event env inflate unfinished cfg) events (sys_init options) = Some s"
    and "i < length (tasks s)"
  shows "run_bytes (env i) inflate unfinished (connection_new cfg) [] (stream_of i events) =
    (result (tasks s ! i), task_conn (tasks s ! i))"
  using own_history_run [OF assms(1)] assms(2) feed_run_bytes [of "spawn cfg" "env i" inflate unfinished]
  by (simp add: own_history_def view_def spawn_def)

subsection \<open>The log\<close>

definition log_exact :: "system \<Rightarrow> bool" where
  "log_exact s \<longleftrightarrow>
     distinct (map fst (sys_log s)) \<and>
     (\<forall>i l. (i, l) \<in> set (sys_log s) \<longleftrightarrow>
        i < length (tasks s) \<and> phase (tasks s ! i) \<noteq> Serving \<and>
        (\<exists>r. result (tasks s ! i) = Some r \<and> run_connection_log r = Some l))"

lemma log_exact_same:
  assumes "log_exact s" "sys_log s' = sys_log s" "length (tasks s') = length (tasks s)"
    and "\<And>i. i < length (tasks s) \<Longrightarrow> phase (tasks s' ! i) = Serving \<longleftrightarrow> phase (tasks s ! i) = Serving"
    and "\<And>i. i < length (tasks s) \<Longrightarrow> phase (tasks s ! i) \<noteq> Serving \<Longrightarrow> result (tasks s' ! i) = result (tasks s ! i)"
  shows "log_exact s'"
  using assms unfolding log_exact_def by auto

lemma log_exact_update:
  assumes "log_exact s" "i < length (tasks s)"
    and "phase (f (tasks s ! i)) = Serving \<longleftrightarrow> phase (tasks s ! i) = Serving"
    and "phase (tasks s ! i) \<noteq> Serving \<Longrightarrow> result (f (tasks s ! i)) = result (tasks s ! i)"
  shows "log_exact (update_task i f s)"
  using assms(2-) by (intro log_exact_same [OF assms(1)]) (auto simp: update_task_def nth_list_update)

lemma log_exact_release:
  assumes log: "log_exact s" and i: "i < length (tasks s)" "phase (tasks s ! i) = Serving" "result (tasks s ! i) = Some r"
  shows "log_exact ((update_task i (phase_update (\<lambda>_. Releasing)) s)\<lparr>sys_permits := k,
    sys_log := sys_log s @ (case run_connection_log r of None \<Rightarrow> [] | Some l \<Rightarrow> [(i, l)])\<rparr>)"
proof -
  have "i \<notin> fst ` set (sys_log s)" using log i(2) unfolding log_exact_def by force
  with log i show ?thesis
    unfolding log_exact_def update_task_def by (auto simp: nth_list_update split: option.splits)
qed

lemma log_exact_loop:
  assumes "log_exact s" "loop_step cfg e s = Some s'"
  shows "log_exact s'"
proof -
  have "sys_log s' = sys_log s" using assms(2) by (cases e) (auto simp: sys_return_def split: if_splits)
  with loop_step_tasks [OF assms(2)] assms(1) show ?thesis
    unfolding log_exact_def by (auto simp: nth_append less_Suc_eq spawn_def)
qed

lemma log_exact_event:
  assumes "log_exact s" "sys_event env inflate unfinished cfg e s = Some s'"
  shows "log_exact s'"
proof (cases e)
  case (Loop f)
  with assms show ?thesis by (auto intro: log_exact_loop)
next
  case (Release i)
  then obtain r where "i < length (tasks s)" "phase (tasks s ! i) = Serving" "result (tasks s ! i) = Some r"
    using assms(2) by (auto split: if_splits option.splits)
  with assms Release log_exact_release [of s i r "sys_permits s + 1"] show ?thesis
    by (simp split: if_splits)
qed (use assms in \<open>auto split: if_splits intro!: log_exact_update\<close>)

lemma log_exact_run:
  "run_events (sys_event env inflate unfinished cfg) events s = Some s' \<Longrightarrow> log_exact s \<Longrightarrow> log_exact s'"
  by (induction events arbitrary: s) (auto split: option.splits dest: log_exact_event)

subsection \<open>Progress\<close>

text \<open>What needs no peer: a read timer that runs out, and a task whose connection has ended.\<close>

fun unaided :: "system_event \<Rightarrow> bool" where
  "unaided (Stream i Quiet) = True"
| "unaided (Release i) = True"
| "unaided _ = False"

text \<open>How many of these steps are left: the release of each task, and the timer of each that still reads.\<close>

definition unaided_left :: "system \<Rightarrow> nat" where
  "unaided_left s = in_phase Serving s + length (filter (\<lambda>t. phase t = Serving \<and> result t = None) (tasks s))"

lemma unaided_left_le: "unaided_left s \<le> 2 * in_phase Serving s"
proof -
  have "filter (\<lambda>t. phase t = Serving \<and> result t = None) (tasks s) =
      filter (\<lambda>t. result t = None) (filter (\<lambda>t. phase t = Serving) (tasks s))" by simp
  then have "length (filter (\<lambda>t. phase t = Serving \<and> result t = None) (tasks s)) \<le>
      length (filter (\<lambda>t. phase t = Serving) (tasks s))" by (metis length_filter_le)
  then show ?thesis by (simp add: unaided_left_def in_phase_def)
qed

lemma unaided_step:
  assumes "unaided e" "sys_event env inflate unfinished cfg e s = Some s'"
  shows "unaided_left s' < unaided_left s \<and> sys_pc s' = sys_pc s \<and> sys_accepted s' = sys_accepted s"
  using assms(1)
proof (cases e rule: unaided.cases)
  case (1 i)
  let ?f = "task_step (env i) inflate unfinished Quiet"
  have s: "i < length (tasks s)" "phase (tasks s ! i) = Serving" "result (tasks s ! i) = None"
    and s': "s' = update_task i ?f s"
    using assms(2) 1 by (simp_all split: if_splits)
  have "in_phase Serving s' = in_phase Serving s"
    using in_phase_update_task [OF s(1), of Serving ?f] s' by simp
  with length_filter_update [OF s(1), of "\<lambda>t. phase t = Serving \<and> result t = None" "?f (tasks s ! i)"] s s'
  show ?thesis by (simp add: unaided_left_def update_task_def)
next
  case (2 i)
  let ?f = "phase_update (\<lambda>_. Releasing)"
  have s: "i < length (tasks s)" "phase (tasks s ! i) = Serving" "result (tasks s ! i) \<noteq> None"
    and s': "tasks s' = (tasks s)[i := ?f (tasks s ! i)]" "sys_pc s' = sys_pc s" "sys_accepted s' = sys_accepted s"
    using assms(2) 2 by (auto split: if_splits option.splits simp: update_task_def)
  show ?thesis
    using length_filter_update [OF s(1), of "\<lambda>t. phase t = Serving" "?f (tasks s ! i)"] s s'
      length_filter_update [OF s(1), of "\<lambda>t. phase t = Serving \<and> result t = None" "?f (tasks s ! i)"]
    by (simp add: unaided_left_def in_phase_def)
qed simp_all

lemma unaided_run:
  "list_all unaided es \<Longrightarrow> run_events (sys_event env inflate unfinished cfg) es s = Some s' \<Longrightarrow>
     length es + unaided_left s' \<le> unaided_left s \<and> sys_pc s' = sys_pc s \<and> sys_accepted s' = sys_accepted s"
proof (induction es arbitrary: s)
  case (Cons e es)
  then obtain s1 where s1: "sys_event env inflate unfinished cfg e s = Some s1"
      "run_events (sys_event env inflate unfinished cfg) es s1 = Some s'"
    by (auto split: option.splits)
  with Cons.IH [OF _ s1(2)] Cons.prems(1) unaided_step [of e env inflate unfinished cfg s s1] show ?case by simp
qed simp

lemma unaided_progress:
  assumes "sys_running s" "in_phase Serving s \<noteq> 0"
  shows "\<exists>e s'. unaided e \<and> sys_event env inflate unfinished cfg e s = Some s'"
proof -
  obtain i where i: "i < length (tasks s)" "phase (tasks s ! i) = Serving"
    using assms(2) by (auto simp: in_phase_def filter_empty_conv in_set_conv_nth)
  have "sys_event env inflate unfinished cfg (if result (tasks s ! i) = None then Stream i Quiet else Release i) s \<noteq> None"
    using i assms(1) by auto
  then show ?thesis by (cases "result (tasks s ! i) = None") (auto intro: exI [of _ "Stream i Quiet"] exI [of _ "Release i"])
qed

lemma reap_all:
  assumes "sys_pc s = q" "q \<in> {Reaping, DrainReaping}"
  shows "\<exists>is s'. run_events (sys_event env inflate unfinished cfg) (map Reap is) s = Some s' \<and>
    in_phase Finished s' = 0 \<and> sys_pc s' = q \<and> sys_permits s' = sys_permits s \<and>
    sys_accepted s' = sys_accepted s"
  using assms(1)
proof (induction "in_phase Finished s" arbitrary: s rule: less_induct)
  case less
  show ?case
  proof (cases "in_phase Finished s = 0")
    case True
    with less.prems show ?thesis by (intro exI [of _ "[]"] exI [of _ s]) simp
  next
    case False
    then obtain i where i: "i < length (tasks s)" "phase (tasks s ! i) = Finished"
      by (auto simp: in_phase_def filter_empty_conv in_set_conv_nth)
    let ?s = "update_task i (phase_update (\<lambda>_. Joined)) s"
    have "in_phase Finished ?s < in_phase Finished s"
      using in_phase_move [OF i, of "phase_update (\<lambda>_. Joined)" Joined] by simp
    from less.hyps [OF this] less.prems obtain js s' where
        "run_events (sys_event env inflate unfinished cfg) (map Reap js) ?s = Some s'"
        "in_phase Finished s' = 0" "sys_pc s' = q" "sys_permits s' = sys_permits s"
        "sys_accepted s' = sys_accepted s" by auto
    with i less.prems assms(2) show ?thesis by (intro exI [of _ "i # js"] exI [of _ s']) auto
  qed
qed

text \<open>The accept loop, left to itself and sent the shutdown signal, always returns.\<close>

fun loop_only :: "system_event \<Rightarrow> bool" where
  "loop_only (Loop e) = True"
| "loop_only (Reap i) = True"
| "loop_only _ = False"

definition can_stop :: "(nat \<Rightarrow> environment) \<Rightarrow> inflater \<Rightarrow> io_error \<Rightarrow> server_config \<Rightarrow> system \<Rightarrow> bool" where
  "can_stop env inflate unfinished cfg s \<longleftrightarrow>
     (\<exists>es s' out. list_all loop_only es \<and>
        run_events (sys_event env inflate unfinished cfg) es s = Some s' \<and> sys_pc s' = Returned out)"

lemma can_stop_run:
  assumes "run_events (sys_event env inflate unfinished cfg) es s = Some s1" "list_all loop_only es"
    and "can_stop env inflate unfinished cfg s1"
  shows "can_stop env inflate unfinished cfg s"
proof -
  from assms(3) obtain fs s' out where "list_all loop_only fs"
      "run_events (sys_event env inflate unfinished cfg) fs s1 = Some s'" "sys_pc s' = Returned out"
    unfolding can_stop_def by blast
  with assms(1,2) show ?thesis
    unfolding can_stop_def by (intro exI [of _ "es @ fs"]) (auto simp: run_events_append)
qed

lemma can_stop_step:
  assumes "loop_step cfg e s = Some s1" "can_stop env inflate unfinished cfg s1"
  shows "can_stop env inflate unfinished cfg s"
  by (rule can_stop_run [of env inflate unfinished cfg "[Loop e]" s s1]) (use assms in simp_all)

lemma can_stop_returned: "sys_pc s = Returned out \<Longrightarrow> can_stop env inflate unfinished cfg s"
  unfolding can_stop_def by (intro exI [of _ "[]"]) simp

lemma can_stop_return: "can_stop env inflate unfinished cfg (sys_return d a s)"
  by (rule can_stop_returned) (simp add: sys_return_def)

lemma can_stop_reaping:
  assumes "sys_pc s = q" "q \<in> {Reaping, DrainReaping}"
    and next_step: "\<And>s'. sys_pc s' = q \<Longrightarrow> in_phase Finished s' = 0 \<Longrightarrow> can_stop env inflate unfinished cfg s'"
  shows "can_stop env inflate unfinished cfg s"
proof -
  obtain "is" s' where s': "run_events (sys_event env inflate unfinished cfg) (map Reap is) s = Some s'"
      "in_phase Finished s' = 0" "sys_pc s' = q"
    using reap_all [OF assms(1,2), of env inflate unfinished cfg] by auto
  have "list_all loop_only (map Reap is)" by (simp add: list_all_iff)
  then show ?thesis by (rule can_stop_run [OF s'(1) _ next_step [OF s'(3,2)]])
qed

lemma can_stop_draining:
  assumes "sys_pc s = Draining"
  shows "can_stop env inflate unfinished cfg s"
proof (cases "live s = 0")
  case True
  with assms have "loop_step cfg JoinNextNone s = Some (sys_return True 0 s)" by simp
  then show ?thesis by (rule can_stop_step [OF _ can_stop_return])
next
  case False
  with assms have "loop_step cfg GraceExpired s = Some (sys_return False (live s) s)" by simp
  then show ?thesis by (rule can_stop_step [OF _ can_stop_return])
qed

lemma can_stop_drain_reaping:
  assumes "sys_pc s = DrainReaping"
  shows "can_stop env inflate unfinished cfg s"
proof (rule can_stop_reaping [OF assms])
  fix s' assume s': "sys_pc s' = DrainReaping" "in_phase Finished s' = 0"
  show "can_stop env inflate unfinished cfg s'"
  proof (cases "live s' = 0")
    case True
    with s' have "loop_step cfg TryJoinNone s' = Some (sys_return True 0 s')" by simp
    then show ?thesis by (rule can_stop_step [OF _ can_stop_return])
  next
    case False
    with s' have "loop_step cfg TryJoinNone s' = Some (s'\<lparr>sys_pc := Draining\<rparr>)" by simp
    then show ?thesis by (rule can_stop_step) (simp add: can_stop_draining)
  qed
qed simp

lemma can_stop_selecting:
  assumes "sys_pc s = Selecting"
  shows "can_stop env inflate unfinished cfg s"
proof -
  have "loop_step cfg Shutdown s = Some (s\<lparr>sys_pc := DrainReaping\<rparr>)" using assms by simp
  then show ?thesis by (rule can_stop_step) (simp add: can_stop_drain_reaping)
qed

lemma can_stop_acquiring:
  assumes "sys_pc s = Acquiring"
  shows "can_stop env inflate unfinished cfg s"
proof -
  obtain s' where "loop_step cfg TryAcquire s = Some s'" "sys_pc s' = Selecting" using assms by simp
  then show ?thesis by (rule can_stop_step [OF _ can_stop_selecting])
qed

lemma can_stop_all: "can_stop env inflate unfinished cfg s"
proof (cases "sys_pc s")
  case Reaping
  then show ?thesis
  proof (rule can_stop_reaping)
    fix s' assume "sys_pc s' = Reaping" "in_phase Finished s' = 0"
    then have "loop_step cfg TryJoinNone s' = Some (s'\<lparr>sys_pc := Acquiring\<rparr>)" by simp
    then show "can_stop env inflate unfinished cfg s'" by (rule can_stop_step) (simp add: can_stop_acquiring)
  qed simp
qed (simp_all add: can_stop_selecting can_stop_acquiring can_stop_drain_reaping can_stop_draining can_stop_returned)

subsection \<open>Properties\<close>

lemma abs_server_init: "abs_server (sys_init options) = serve_init options"
  by (simp add: abs_server_def sys_init_def serve_init_def in_phase_def)

lemma system_reachable:
  assumes "run_events (sys_event env inflate unfinished cfg) events (sys_init options) = Some s"
  shows "serve_reachable options (abs_server s)"
  using system_server.run_simulates [OF assms] serve_run_reachable [OF serve_reachable.init]
  by (auto simp: abs_server_init serve_run_events)

text \<open>Every peer taken from the listener is counted once; the counters are \<open>u64\<close>s and wrap around.\<close>

definition counts_inv :: "u64 \<Rightarrow> system \<Rightarrow> bool" where
  "counts_inv n s \<longleftrightarrow>
     sys_accepted s + sys_refused s + (if sys_pc s \<in> {Reaping, Acquiring} then 1 else 0) = n \<and>
     (\<forall>out. sys_pc s = Returned out \<longrightarrow> so_accepted out = sys_accepted s \<and> so_refused out = sys_refused s)"

lemma counts_inv_event:
  assumes "sys_event env inflate unfinished cfg e s = Some s'" "counts_inv n s"
  shows "counts_inv (n + (if e = Loop Accept then 1 else 0)) s'"
proof (cases e)
  case (Loop f)
  with assms show ?thesis by (cases f) (auto simp: counts_inv_def sys_return_def split: if_splits)
qed (use assms in \<open>auto simp: counts_inv_def split: if_splits option.splits\<close>)

lemma counts_inv_run:
  "run_events (sys_event env inflate unfinished cfg) es s = Some s' \<Longrightarrow> counts_inv n s \<Longrightarrow>
     counts_inv (n + of_nat (count_list es (Loop Accept))) s'"
proof (induction es arbitrary: s n)
  case (Cons e es)
  then obtain s1 where "sys_event env inflate unfinished cfg e s = Some s1"
      "run_events (sys_event env inflate unfinished cfg) es s1 = Some s'"
    by (auto split: option.splits)
  with Cons.IH [OF this(2) counts_inv_event [OF this(1) Cons.prems(2)]] show ?case
    by (auto simp: algebra_simps split: if_splits)
qed simp

lemma system_counts:
  assumes "run_events (sys_event env inflate unfinished cfg) es (sys_init options) = Some s"
    and "sys_pc s = Returned out"
  shows "so_accepted out + so_refused out = of_nat (count_list es (Loop Accept))"
proof -
  have "counts_inv 0 (sys_init options)" by (simp add: counts_inv_def sys_init_def)
  from counts_inv_run [OF assms(1) this] assms(2) show ?thesis by (simp add: counts_inv_def)
qed

text \<open>
  C7: The server with its connections implements the accept loop: each execution of it, seen without the
  sockets, is an execution of \<open>serve\<close> in no more steps. So no more connections are ever served at once
  than \<open>max_connections\<close>, and the permits account for every one of them.
\<close>

theorem system_refines_server:
  assumes "run_events (sys_event env inflate unfinished cfg) events (sys_init options) = Some s"
  shows "(\<exists>es. serve_run es (serve_init options) = Some (abs_server s) \<and> length es \<le> length events) \<and>
    sys_permits s + length (filter (\<lambda>t. phase t = Serving) (tasks s)) = max_connections options"
proof
  show "\<exists>es. serve_run es (serve_init options) = Some (abs_server s) \<and> length es \<le> length events"
    using system_server.run_simulates [OF assms] by (simp add: abs_server_init serve_run_events)
  show "sys_permits s + length (filter (\<lambda>t. phase t = Serving) (tasks s)) = max_connections options"
    using serve_reachable_permits [OF system_reachable [OF assms]] by (simp add: abs_server_def in_phase_def)
qed

text \<open>An execution with one slot: a peer is admitted, sends half a frame and falls silent.\<close>

definition sample_options :: serve_options where
  "sample_options = \<lparr>max_connections = 1, shutdown_grace = 5\<rparr>"

definition sample_events :: "system_event list" where
  "sample_events = [Loop Accept, Loop TryJoinNone, Loop TryAcquire, Stream 0 (Chunk [0x05]), Stream 0 Quiet, Release 0]"

definition sample_system :: system where
  "sample_system =
     \<lparr>sys_pc = Selecting, sys_permits = 1,
      tasks = [\<lparr>phase = Releasing, result = Some (Inl Timeout), task_conn = connection_new server_config_default,
        read_buffer = [0x05]\<rparr>],
      sys_accepted = 1, sys_refused = 0, sys_log = [(0, Log_Debug)]\<rparr>"

lemma sample_run:
  "run_events (sys_event (\<lambda>_. ideal_env) stored_inflate [] server_config_default) sample_events
     (sys_init sample_options) = Some sample_system"
  by (simp add: sample_events_def sys_init_def sample_options_def sample_system_def in_phase_def spawn_def
      sys_running_def update_task_def drive_half_frame run_connection_log_def)

theorem system_refines_server_witness:
  "(\<exists>es. serve_run es (serve_init sample_options) = Some (abs_server sample_system) \<and>
      length es \<le> length sample_events) \<and>
   sys_permits sample_system + length (filter (\<lambda>t. phase t = Serving) (tasks sample_system)) =
     max_connections sample_options"
  by (rule system_refines_server [OF sample_run])

text \<open>
  C5: Connections are isolated: how a connection stands, its result, its state and every byte it was sent,
  is what \<open>Connection::run\<close> makes of the events of its own socket. Nothing another peer does, no
  order of events, no refusal and no shutdown changes it.
\<close>

theorem connections_isolated:
  assumes "run_events (sys_event env inflate unfinished cfg) events (sys_init options) = Some s"
    and "i < length (tasks s)"
  shows "(result (tasks s ! i), task_conn (tasks s ! i)) =
      run_bytes (env i) inflate unfinished (connection_new cfg) [] (stream_of i events)"
  using task_run_bytes [OF assms] by simp

theorem connections_isolated_witness:
  "(Some (Inl Timeout), connection_new server_config_default) =
     run_bytes ideal_env stored_inflate [] (connection_new server_config_default) []
       (stream_of 0 sample_events)"
  using connections_isolated [OF sample_run, of 0] by (simp add: sample_system_def)

text \<open>
  The log accuses nobody else: a line about a connection is written exactly when it has released its
  permit after ending with an error, once, at the level its own socket's events call for.
\<close>

theorem log_names_culprit:
  assumes "run_events (sys_event env inflate unfinished cfg) events (sys_init options) = Some s"
  shows "distinct (map fst (sys_log s)) \<and>
    ((i, l) \<in> set (sys_log s) \<longleftrightarrow>
       i < length (tasks s) \<and> phase (tasks s ! i) \<noteq> Serving \<and>
       (\<exists>r c. run_bytes (env i) inflate unfinished (connection_new cfg) [] (stream_of i events) = (Some r, c) \<and>
          run_connection_log r = Some l))"
proof -
  have "log_exact s"
    using assms by (rule log_exact_run) (simp add: log_exact_def sys_init_def)
  then show ?thesis
    unfolding log_exact_def by (cases "i < length (tasks s)") (simp_all add: task_run_bytes [OF assms])
qed

theorem log_names_culprit_witness:
  "distinct (map fst (sys_log sample_system)) \<and>
   (\<exists>r c. run_bytes ideal_env stored_inflate [] (connection_new server_config_default) []
        (stream_of 0 sample_events) = (Some r, c) \<and> run_connection_log r = Some Log_Debug)"
  using log_names_culprit [OF sample_run, of 0 Log_Debug] by (simp add: sample_system_def)

text \<open>The accept loop admits the next peer if a permit is free.\<close>

lemma admits_acquiring:
  assumes "sys_pc s = Acquiring" "0 < sys_permits s"
  shows "\<exists>es s'. list_all loop_only es \<and> run_events (sys_event env inflate unfinished cfg) es s = Some s' \<and>
    sys_accepted s' = sys_accepted s + 1 \<and> sys_pc s' = Selecting"
  by (intro exI [of _ "[Loop TryAcquire]"]) (use assms in simp)

lemma admits_reaping:
  assumes "sys_pc s = Reaping" "0 < sys_permits s"
  shows "\<exists>es s'. list_all loop_only es \<and> run_events (sys_event env inflate unfinished cfg) es s = Some s' \<and>
    sys_accepted s' = sys_accepted s + 1 \<and> sys_pc s' = Selecting"
proof -
  let ?step = "sys_event env inflate unfinished cfg"
  obtain "is" s2 where s2: "run_events ?step (map Reap is) s = Some s2"
      "in_phase Finished s2 = 0" "sys_pc s2 = Reaping" "sys_permits s2 = sys_permits s"
      "sys_accepted s2 = sys_accepted s"
    using reap_all [OF assms(1), of env inflate unfinished cfg] by auto
  obtain es s' where "list_all loop_only es" "run_events ?step es (s2\<lparr>sys_pc := Acquiring\<rparr>) = Some s'"
      "sys_accepted s' = sys_accepted s + 1" "sys_pc s' = Selecting"
    using admits_acquiring [of "s2\<lparr>sys_pc := Acquiring\<rparr>" env inflate unfinished cfg] s2(4,5) assms(2) by auto
  with s2(1-3) show ?thesis
    by (intro exI [of _ "map Reap is @ Loop TryJoinNone # es"] exI [of _ s'])
       (auto simp: run_events_append list_all_iff)
qed

lemma admits_next:
  assumes "sys_pc s \<in> {Selecting, Reaping, Acquiring}" "0 < sys_permits s"
  shows "\<exists>es s'. list_all loop_only es \<and> run_events (sys_event env inflate unfinished cfg) es s = Some s' \<and>
    sys_accepted s' = sys_accepted s + 1 \<and> sys_pc s' = Selecting"
proof (cases "sys_pc s = Selecting")
  case True
  obtain es s' where "list_all loop_only es"
      "run_events (sys_event env inflate unfinished cfg) es (s\<lparr>sys_pc := Reaping\<rparr>) = Some s'"
      "sys_accepted s' = sys_accepted s + 1" "sys_pc s' = Selecting"
    using admits_reaping [of "s\<lparr>sys_pc := Reaping\<rparr>" env inflate unfinished cfg] assms(2) by auto
  with True show ?thesis by (intro exI [of _ "Loop Accept # es"] exI [of _ s']) simp
qed (use assms admits_reaping admits_acquiring in auto)

text \<open>
  C18: A full server recovers without the help of any peer. Let the server be in any state before
  \<open>serve\<close> returns, accepting or draining, and let nothing happen but read timers running out and tasks
  whose connection has ended giving back their permits. Every such execution, in whatever order, has
  at most two steps for each connection being served, and can be continued until all permits are free.
  If the server is then still in its accept loop, at any point of it, and its cap is positive, the loop's
  own steps and a peer that connects lead to that peer being admitted. That a timer runs out is
  an assumption here, that of a peer which sends nothing; a connection in the middle of sending, or one
  whose peer keeps it alive, does not give its permit back.
\<close>

theorem capacity_recovers:
  assumes "run_events (sys_event env inflate unfinished cfg) events (sys_init options) = Some s" "sys_running s"
    and "list_all unaided es" "run_events (sys_event env inflate unfinished cfg) es s = Some s'"
  shows "length es \<le> 2 * in_phase Serving s \<and> sys_pc s' = sys_pc s \<and> sys_accepted s' = sys_accepted s \<and>
    (if sys_permits s' = max_connections options
     then sys_pc s \<in> {Selecting, Reaping, Acquiring} \<longrightarrow> 0 < max_connections options \<longrightarrow>
       (\<exists>fs s''. list_all loop_only fs \<and> run_events (sys_event env inflate unfinished cfg) fs s' = Some s'' \<and>
          sys_accepted s'' = sys_accepted s + 1 \<and> sys_pc s'' = Selecting)
     else \<exists>e s''. unaided e \<and> sys_event env inflate unfinished cfg e s' = Some s'')"
proof -
  note run = unaided_run [OF assms(3,4)]
  have "run_events (sys_event env inflate unfinished cfg) (events @ es) (sys_init options) = Some s'"
    using assms(1,4) by (simp add: run_events_append)
  from serve_reachable_permits [OF system_reachable [OF this]]
  have permits: "sys_permits s' + in_phase Serving s' = max_connections options" by (simp add: abs_server_def)
  have "sys_running s'" using assms(2) run by (simp add: sys_running_def)
  with permits have "\<exists>e s''. unaided e \<and> sys_event env inflate unfinished cfg e s' = Some s''"
    if "sys_permits s' \<noteq> max_connections options"
    using that unaided_progress [of s' env inflate unfinished cfg] by auto
  then show ?thesis
    using run unaided_left_le [of s] admits_next [of s' env inflate unfinished cfg] by auto
qed

theorem capacity_recovers_witness:
  "length ([] :: system_event list) \<le> 2 * in_phase Serving sample_system \<and>
   (\<exists>fs s''. list_all loop_only fs \<and>
      run_events (sys_event (\<lambda>_. ideal_env) stored_inflate [] server_config_default) fs sample_system = Some s'' \<and>
      sys_accepted s'' = sys_accepted sample_system + 1 \<and> sys_pc s'' = Selecting)"
proof -
  have "sys_running sample_system" by (simp add: sys_running_def sample_system_def)
  moreover have "sys_permits sample_system = max_connections sample_options" "0 < max_connections sample_options"
      "sys_pc sample_system = Selecting"
    by (simp_all add: sample_system_def sample_options_def)
  ultimately show ?thesis using capacity_recovers [OF sample_run, of "[]" sample_system] by simp
qed

end
