(* ===== verification/ServerMain.thy ===== *)
theory ServerMain
  imports System
begin

text \<open>
  \<open>crates/server/src/main.rs\<close>: the command line as it comes out of the argument parser, the bind
  check, and \<open>main\<close> from its arguments to the outcome of \<open>serve\<close>. The bind check's refusal is a sentence
  around the address and its port; it is the constructor \<open>BindRefused\<close> here. \<open>TcpListener::bind\<close> is the
  parameter \<open>listen\<close>, which gives the error it fails with, if it does.
\<close>

datatype ip_addr = V4 u32 | V6 u128

record socket_addr =
  ip :: ip_addr
  port :: u16

text \<open>\<open>IpAddr::is_loopback\<close>: \<open>127.0.0.0/8\<close>, and \<open>::1\<close> alone.\<close>

fun is_loopback :: "ip_addr \<Rightarrow> bool" where
  "is_loopback (V4 a) = (drop_bit 24 a = 127)"
| "is_loopback (V6 a) = (a = 1)"

text \<open>\<open>Semaphore::MAX_PERMITS\<close> is \<open>usize::MAX >> 3\<close>.\<close>

definition MAX_PERMITS :: nat where
  "MAX_PERMITS = USIZE_MAX div 8"

record args =
  bind_addr :: socket_addr
  arg_motd :: rstring
  arg_max_players :: i32
  arg_read_timeout :: u64
  arg_max_connections :: u64
  arg_shutdown_grace :: u64
  arg_compression_threshold :: i32
  insecure_offline_mode :: bool

text \<open>The \<open>default_value\<close>s.\<close>

definition args_default :: args where
  "args_default =
     \<lparr>bind_addr = \<lparr>ip = V4 0, port = 25565\<rparr>, arg_motd = ascii ''A Pyrite Server'', arg_max_players = 20,
      arg_read_timeout = 30, arg_max_connections = 1000, arg_shutdown_grace = 5,
      arg_compression_threshold = 256, insecure_offline_mode = False\<rparr>"

text \<open>The \<open>value_parser\<close> ranges: values outside them never reach \<open>main\<close>.\<close>

definition args_in_range :: "args \<Rightarrow> bool" where
  "args_in_range a \<longleftrightarrow> 1 \<le> unat (arg_read_timeout a) \<and>
     1 \<le> unat (arg_max_connections a) \<and> unat (arg_max_connections a) \<le> MAX_PERMITS"

datatype bind_error = BindRefused socket_addr u16

definition check_bind_safety :: "socket_addr \<Rightarrow> bool \<Rightarrow> bind_error + unit" where
  "check_bind_safety addr insecure =
     (if insecure \<or> is_loopback (ip addr) then Inr () else Inl (BindRefused addr (port addr)))"

definition config_of_args :: "args \<Rightarrow> server_config" where
  "config_of_args a =
     \<lparr>motd = text_component_new (arg_motd a), max_players = arg_max_players a,
      read_timeout = unat (arg_read_timeout a),
      cfg_compression_threshold =
        (if 0 \<le> sint (arg_compression_threshold a) then Some (arg_compression_threshold a) else None)\<rparr>"

definition options_of_args :: "args \<Rightarrow> serve_options" where
  "options_of_args a =
     \<lparr>max_connections = unat (arg_max_connections a), shutdown_grace = unat (arg_shutdown_grace a)\<rparr>"

text \<open>
  \<open>main\<close> up to the call of \<open>serve\<close>: either it exits with a status, or it warns or not and listens
  on an address with a configuration and options.
\<close>

datatype startup = Exit nat | Listen bool socket_addr server_config serve_options

definition main_startup :: "args \<Rightarrow> startup" where
  "main_startup a =
     (case check_bind_safety (bind_addr a) (insecure_offline_mode a) of
        Inl _ \<Rightarrow> Exit 1
      | Inr _ \<Rightarrow>
          Listen (insecure_offline_mode a \<and> \<not> is_loopback (ip (bind_addr a)))
            (bind_addr a) (config_of_args a) (options_of_args a))"

text \<open>
  The rest of \<open>main\<close>: bind the listener, where a failure is returned as the error of \<open>main\<close>, and \<open>serve\<close>
  until it returns. \<open>listen\<close> is what \<open>TcpListener::bind\<close> reports; the events are those of the system. The
  shutdown future ends whether \<open>ctrl_c\<close> succeeds or fails, which is the event \<open>Shutdown\<close>.
\<close>

datatype main_state = Exited nat | BindFailed io_error | ServingSince system | Stopped serve_outcome

definition main_run :: "(nat \<Rightarrow> environment) \<Rightarrow> inflater \<Rightarrow> io_error \<Rightarrow> (socket_addr \<Rightarrow> io_error option) \<Rightarrow>
    args \<Rightarrow> system_event list \<Rightarrow> main_state option" where
  "main_run env inflate unfinished listen a events =
     (case main_startup a of
        Exit n \<Rightarrow> Some (Exited n)
      | Listen _ addr cfg options \<Rightarrow>
          (case listen addr of
             Some e \<Rightarrow> Some (BindFailed e)
           | None \<Rightarrow>
               (case run_events (sys_event env inflate unfinished cfg) events (sys_init options) of
                  None \<Rightarrow> None
                | Some s \<Rightarrow>
                    Some (case sys_pc s of Returned out \<Rightarrow> Stopped out | _ \<Rightarrow> ServingSince s))))"

lemma main_serving:
  assumes "main_run env inflate unfinished listen a events = Some (ServingSince s)"
  shows "is_loopback (ip (bind_addr a)) \<or> insecure_offline_mode a" "listen (bind_addr a) = None"
    "run_events (sys_event env inflate unfinished (config_of_args a)) events (sys_init (options_of_args a)) = Some s"
  using assms
  by (auto simp: main_run_def main_startup_def check_bind_safety_def
      split: if_splits option.splits serve_pc.splits)

subsection \<open>Properties\<close>

text \<open>
  C8: The program from its command line to its connections. While it serves, the address was safe to
  listen on, no more connections are served at once than the command line allows, and each of them
  is answered with the configuration the command line describes and according to its own bytes.
\<close>

theorem main_serves:
  assumes "args_in_range a" "main_run env inflate unfinished listen a events = Some (ServingSince s)"
  shows "(is_loopback (ip (bind_addr a)) \<or> insecure_offline_mode a) \<and> listen (bind_addr a) = None \<and>
    length (filter (\<lambda>t. phase t = Serving) (tasks s)) \<le> unat (arg_max_connections a) \<and>
    (\<forall>i < length (tasks s). (result (tasks s ! i), task_conn (tasks s ! i)) =
       run_bytes (env i) inflate unfinished (connection_new (config_of_args a)) [] (stream_of i events))"
proof -
  note up = main_serving [OF assms(2)]
  have "sys_permits s + in_phase Serving s = unat (arg_max_connections a)"
    using serve_reachable_permits [OF system_reachable [OF up(3)]] by (simp add: abs_server_def options_of_args_def)
  then have "length (filter (\<lambda>t. phase t = Serving) (tasks s)) \<le> unat (arg_max_connections a)"
    by (simp add: in_phase_def)
  with up(1,2) task_run_bytes [OF up(3)] show ?thesis by simp
qed

text \<open>A server with one slot, on the default address and in offline mode, after its only peer timed out.\<close>

definition sample_args :: args where
  "sample_args = args_default\<lparr>insecure_offline_mode := True, arg_max_connections := 1\<rparr>"

lemma sample_main:
  "main_run (\<lambda>_. ideal_env) stored_inflate [] (\<lambda>_. None) sample_args sample_events = Some (ServingSince sample_system)"
proof -
  have "main_startup sample_args = Listen True \<lparr>ip = V4 0, port = 25565\<rparr> server_config_default sample_options"
    by (simp add: sample_args_def sample_options_def main_startup_def check_bind_safety_def args_default_def
        config_of_args_def options_of_args_def server_config_default_def)
  with sample_run show ?thesis by (simp add: main_run_def) (simp add: sample_system_def)
qed

theorem main_serves_witness:
  "args_in_range sample_args \<and>
   length (filter (\<lambda>t. phase t = Serving) (tasks sample_system)) \<le> unat (arg_max_connections sample_args) \<and>
   (result (tasks sample_system ! 0), task_conn (tasks sample_system ! 0)) =
     run_bytes ideal_env stored_inflate [] (connection_new (config_of_args sample_args)) []
       (stream_of 0 sample_events)"
proof -
  have r: "args_in_range sample_args"
    by (simp add: sample_args_def args_in_range_def args_default_def MAX_PERMITS_def USIZE_MAX_def)
  have "0 < length (tasks sample_system)" by (simp add: sample_system_def)
  with main_serves [OF r sample_main] r show ?thesis by blast
qed

text \<open>
  C19: The program can always be stopped: whatever it is serving, the shutdown signal and the accept loop's
  own steps, without any peer or task doing anything, lead to \<open>main\<close> returning; what it then reports
  counts every peer that was ever taken from the listener, modulo \<open>2 ^ 64\<close>, the counters being \<open>u64\<close>s.
\<close>

theorem main_stops:
  assumes "main_run env inflate unfinished listen a events = Some (ServingSince s)"
  shows "\<exists>es out. list_all loop_only es \<and>
    main_run env inflate unfinished listen a (events @ es) = Some (Stopped out) \<and>
    so_accepted out + so_refused out = of_nat (count_list (events @ es) (Loop Accept))"
proof -
  note up = main_serving [OF assms]
  obtain es s' out where s': "list_all loop_only es" "sys_pc s' = Returned out"
      "run_events (sys_event env inflate unfinished (config_of_args a)) es s = Some s'"
    using can_stop_all unfolding can_stop_def by blast
  have all: "run_events (sys_event env inflate unfinished (config_of_args a)) (events @ es)
      (sys_init (options_of_args a)) = Some s'"
    using up(3) s'(3) by (simp add: run_events_append)
  have "main_run env inflate unfinished listen a (events @ es) = Some (Stopped out)"
    using up(1,2) all s'(2) by (auto simp: main_run_def main_startup_def check_bind_safety_def)
  with system_counts [OF all s'(2)] s'(1) show ?thesis by blast
qed


theorem main_stops_witness:
  "\<exists>es out. list_all loop_only es \<and>
    main_run (\<lambda>_. ideal_env) stored_inflate [] (\<lambda>_. None) sample_args (sample_events @ es) = Some (Stopped out) \<and>
    so_accepted out + so_refused out = of_nat (count_list (sample_events @ es) (Loop Accept))"
  by (rule main_stops [OF sample_main])

text \<open>
  The server is exposed only on purpose: it exits exactly if the address is not a loopback
  address and insecure offline mode was not asked for; where it listens, it listens on the address
  given, and warns exactly if that is not a loopback address. With the default arguments, which name
  \<open>0.0.0.0\<close>, it refuses to start.
\<close>

theorem startup_bind_safety:
  "(main_startup a = Exit 1 \<longleftrightarrow> \<not> insecure_offline_mode a \<and> \<not> is_loopback (ip (bind_addr a))) \<and>
   (\<forall>w b c p. main_startup a = Listen w b c p \<longrightarrow>
      b = bind_addr a \<and> (w \<longleftrightarrow> \<not> is_loopback (ip b)) \<and> (is_loopback (ip b) \<or> insecure_offline_mode a)) \<and>
   main_startup args_default = Exit 1"
  by (auto simp: main_startup_def check_bind_safety_def args_default_def)

theorem startup_bind_safety_witness:
  "\<exists>c p. main_startup (args_default\<lparr>bind_addr := \<lparr>ip = V4 0x7F000001, port = 25565\<rparr>\<rparr>) =
       Listen False \<lparr>ip = V4 0x7F000001, port = 25565\<rparr> c p \<and>
     (False \<longleftrightarrow> \<not> is_loopback (V4 0x7F000001))"
proof -
  let ?a = "args_default\<lparr>bind_addr := \<lparr>ip = V4 0x7F000001, port = 25565\<rparr>\<rparr>"
  have "is_loopback (V4 0x7F000001)" by simp
  then obtain c p where s: "main_startup ?a = Listen False \<lparr>ip = V4 0x7F000001, port = 25565\<rparr> c p"
    by (simp add: main_startup_def check_bind_safety_def args_default_def)
  with startup_bind_safety [of ?a] have "False \<longleftrightarrow> \<not> is_loopback (ip \<lparr>ip = V4 0x7F000001, port = 25565\<rparr>)"
    by blast
  with s show ?thesis by auto
qed

text \<open>
  Whatever the command line, within the ranges its parser enforces, the server is started with a
  positive read timeout, a connection limit that the semaphore accepts and that is not zero, and a
  compression threshold that is absent or not negative, so that the threshold announced to clients is
  the one in force. The command line's defaults are the library's.
\<close>

theorem startup_configuration:
  assumes "args_in_range a" "main_startup a = Listen w b c p"
  shows "1 \<le> read_timeout c \<and> 1 \<le> max_connections p \<and> max_connections p \<le> MAX_PERMITS \<and>
    announced c = cfg_compression_threshold c \<and>
    config_of_args args_default = server_config_default \<and>
    options_of_args args_default = serve_options_default"
  using assms
  by (auto simp: main_startup_def check_bind_safety_def args_in_range_def config_of_args_def
      options_of_args_def announced_def args_default_def server_config_default_def
      serve_options_default_def split: if_splits)

theorem startup_configuration_witness:
  "args_in_range (args_default\<lparr>insecure_offline_mode := True\<rparr>) \<and>
   main_startup (args_default\<lparr>insecure_offline_mode := True\<rparr>) =
     Listen True \<lparr>ip = V4 0, port = 25565\<rparr> server_config_default serve_options_default \<and>
   announced server_config_default = Some 256"
proof -
  let ?a = "args_default\<lparr>insecure_offline_mode := True\<rparr>"
  have r: "args_in_range ?a" by (simp add: args_in_range_def args_default_def MAX_PERMITS_def USIZE_MAX_def)
  have s: "main_startup ?a = Listen True \<lparr>ip = V4 0, port = 25565\<rparr> server_config_default serve_options_default"
    by (simp add: main_startup_def check_bind_safety_def args_default_def config_of_args_def
        options_of_args_def server_config_default_def serve_options_default_def)
  from startup_configuration [OF r s] r s show ?thesis by (simp add: server_config_default_def)
qed

end
