(* ===== verification/Exchange.thy ===== *)
theory Exchange
  imports Session
begin

text \<open>
  What one handler of \<open>crates/net/src/connection.rs\<close> delivers to the client: for each accepted frame, the
  connection it leaves behind and the frames the client can read from the bytes sent, in an
  environment whose compressor is lossless and whose transport takes what it is given.
\<close>

subsection \<open>Login\<close>

definition success_for :: "environment \<Rightarrow> rstring \<Rightarrow> login_success" where
  "success_for env name =
     \<lparr>profile = \<lparr>profile_uuid = offline_uuid (env_md5 env) name, username = name, properties = []\<rparr>,
      session_id = offline_uuid (env_md5 env) name\<rparr>"

lemma decoded_start_ok:
  assumes "decode_as LoginStart frame = Inr start"
  shows "string_ok MAX_USERNAME_CHARS (ls_name start)"
  using assms
  by (auto simp: decode_as_def LoginStart_def reader_defs split: sum.splits if_splits)
     (erule read_string_ok)

lemma write_varint_short: "length (write_varint v) \<le> 5"
  by simp

lemma success_small:
  assumes "string_ok MAX_USERNAME_CHARS name"
  shows "length (write_varint (ID LoginSuccess) @ fst (encode_body LoginSuccess (success_for env name))) \<le> 1000000"
proof -
  have "length name \<le> 48"
    using assms by (simp add: string_ok_def MAX_USERNAME_CHARS_def MAX_BYTES_PER_CHAR_def)
  then show ?thesis
    using write_varint_short [of "ID LoginSuccess"] write_varint_short [of "i32_of_usize (length name)"]
      write_varint_short [of "i32_of_usize 0"]
    by (simp add: LoginSuccess_def success_for_def profile_encode_to_def write_string_def write_uuid_def
        write_prefixed_array_def del: varint_len_bounds)
qed

lemma success_for_ok: "string_ok MAX_USERNAME_CHARS name \<Longrightarrow> login_success_ok (success_for env name)"
  by (simp add: login_success_ok_def success_for_def profile_ok_def MAX_PROFILE_PROPERTIES_def)

lemma set_compression_small:
  "length (write_varint (ID SetCompression) @ fst (encode_body SetCompression p)) \<le> 1000000"
  using write_varint_short [of "ID SetCompression"] write_varint_short [of "sc_threshold p"]
  by (simp add: SetCompression_def del: varint_len_bounds)

text \<open>
  What a client receives in answer to a login start, when the codec was at threshold \<open>old\<close> before:
  with compression configured, a \<open>SetCompression\<close> in the old format and then a \<open>LoginSuccess\<close> in the
  new one; otherwise only the latter.
\<close>

definition login_reply ::
    "inflater \<Rightarrow> environment \<Rightarrow> server_config \<Rightarrow> i32 option \<Rightarrow> rstring \<Rightarrow> byte list \<Rightarrow> bool" where
  "login_reply inflate env cfg old name bs \<longleftrightarrow>
     (case cfg_compression_threshold cfg of
        None \<Rightarrow> reads_as inflate old bs LoginSuccess (success_for env name)
      | Some t \<Rightarrow>
          (\<exists>bs1 bs2. bs = bs1 @ bs2 \<and> reads_as inflate old bs1 SetCompression \<lparr>sc_threshold = t\<rparr> \<and>
             reads_as inflate (announced cfg) bs2 LoginSuccess (success_for env name)))"

lemma login_start_delivers:
  assumes env: "env_ok env inflate" and start: "decode_as LoginStart frame = Inr start"
    and valid: "validate_username (ls_name start) = Inr ()"
  obtains c' bs where "handle_login_start env frame c = (Inr Continue, c')"
    "wire c' = wire c @ bs" "conn_state c' = conn_state c" "config c' = config c"
    "compression_threshold (codec c') =
       (if cfg_compression_threshold (config c) = None then compression_threshold (codec c)
        else announced (config c))"
    "login_reply inflate env (config c) (compression_threshold (codec c)) (ls_name start) bs"
proof -
  have ok: "string_ok MAX_USERNAME_CHARS (ls_name start)" using start by (rule decoded_start_ok)
  note success = send_delivers [OF env LoginSuccess.packet_impl_axioms success_for_ok [OF ok] success_small [OF ok]]
  show thesis
  proof (cases "cfg_compression_threshold (config c)")
    case None
    obtain k bs where s: "send env LoginSuccess (success_for env (ls_name start)) c =
          (Inr (), c\<lparr>codec := k, wire := wire c @ bs\<rparr>)"
        "compression_threshold k = compression_threshold (codec c)"
        "reads_as inflate (compression_threshold (codec c)) bs LoginSuccess (success_for env (ls_name start))"
      by (rule success)
    then show thesis
      using start valid None
      by (intro that [of "c\<lparr>codec := k, wire := wire c @ bs\<rparr>" bs])
         (simp_all add: handle_login_start_def Let_def success_for_def login_reply_def)
  next
    case (Some t)
    obtain k1 bs1 where s1: "send env SetCompression \<lparr>sc_threshold = t\<rparr> c =
          (Inr (), c\<lparr>codec := k1, wire := wire c @ bs1\<rparr>)"
        "reads_as inflate (compression_threshold (codec c)) bs1 SetCompression \<lparr>sc_threshold = t\<rparr>"
      by (rule send_delivers [OF env SetCompression.packet_impl_axioms TrueI set_compression_small])
    let ?c1 = "c\<lparr>wire := wire c @ bs1, codec := set_compression t k1\<rparr>"
    obtain k bs where s: "send env LoginSuccess (success_for env (ls_name start)) ?c1 =
          (Inr (), ?c1\<lparr>codec := k, wire := wire ?c1 @ bs\<rparr>)"
        "compression_threshold k = compression_threshold (codec ?c1)"
        "reads_as inflate (compression_threshold (codec ?c1)) bs LoginSuccess (success_for env (ls_name start))"
      by (rule success)
    have new: "compression_threshold (codec ?c1) = announced (config c)"
      using Some by (simp add: announced_def set_compression_threshold)
    from s1(2) s(3) Some have
      "login_reply inflate env (config c) (compression_threshold (codec c)) (ls_name start) (bs1 @ bs)"
      by (simp only: login_reply_def option.case new) blast
    with s s1 new start valid Some show thesis
      by (intro that [of "?c1\<lparr>codec := k, wire := wire ?c1 @ bs\<rparr>" "bs1 @ bs"])
         (simp_all add: handle_login_start_def Let_def success_for_def)
  qed
qed

lemma handle_dispatch:
  "current (conn_state c) = Login \<Longrightarrow> raw_id frame = 0 \<Longrightarrow> handle env frame c = handle_login_start env frame c"
  "current (conn_state c) = Login \<Longrightarrow> raw_id frame = 3 \<Longrightarrow> handle env frame c = handle_login_acknowledged c"
  "current (conn_state c) = Status \<Longrightarrow> raw_id frame = 0 \<Longrightarrow> handle env frame c = handle_status_request env c"
  "current (conn_state c) = Status \<Longrightarrow> raw_id frame = 1 \<Longrightarrow> handle env frame c = handle_ping env frame c"
  by (simp_all add: handle_def Let_def packet_defs)

lemma hello_login:
  assumes "decode_as Handshake hello = Inr h" "next_state h \<noteq> NS_Status" "raw_id hello = 0"
  shows "handle env hello (connection_new cfg) = (Inr Continue, login_waiting cfg)"
  using assms
  by (cases "next_state h")
     (simp_all add: handle_def Let_def packet_defs(1) connection_new_def state_new_def handle_handshake_def
       move_to_def transition_def login_waiting_def)

lemma login_waiting_simps [simp]:
  "current (conn_state (login_waiting cfg)) = Login" "wire (login_waiting cfg) = []"
  "compression_threshold (codec (login_waiting cfg)) = None" "config (login_waiting cfg) = cfg"
  by (simp_all add: login_waiting_def connection_new_def codec_new_def)

subsection \<open>Status\<close>

lemma hello_status:
  assumes "decode_as Handshake hello = Inr h" "next_state h = NS_Status" "raw_id hello = 0"
  shows "handle env hello (connection_new cfg) =
    (Inr Continue, (connection_new cfg)\<lparr>conn_state := \<lparr>current = Status, status_request_seen = False\<rparr>\<rparr>)"
  using assms
  by (simp add: handle_def Let_def packet_defs(1) connection_new_def state_new_def handle_handshake_def
      move_to_def transition_def)

lemma status_request_delivers:
  assumes "env_ok env inflate" "\<not> status_request_seen (conn_state c)"
    and "env_json env (json_of_status (status_response_json_new (motd (config c)) (max_players (config c)) 0)) = Inr json"
    and "string_ok MAX_STATUS_JSON_CHARS json"
  obtains k bs where "handle_status_request env c = (Inr Continue,
      c\<lparr>conn_state := (conn_state c)\<lparr>status_request_seen := True\<rparr>, codec := k, wire := wire c @ bs\<rparr>)"
    "compression_threshold k = compression_threshold (codec c)"
    "reads_as inflate (compression_threshold (codec c)) bs StatusResponse \<lparr>status_json = json\<rparr>"
proof -
  let ?p = "\<lparr>status_json = json\<rparr>" and ?c = "c\<lparr>conn_state := (conn_state c)\<lparr>status_request_seen := True\<rparr>\<rparr>"
  have ok: "status_response_ok ?p" using assms(4) by (simp add: status_response_ok_def)
  have "length json \<le> 98301"
    using assms(4) by (simp add: string_ok_def MAX_STATUS_JSON_CHARS_def MAX_BYTES_PER_CHAR_def)
  then have small: "length (write_varint (ID StatusResponse) @ fst (encode_body StatusResponse ?p)) \<le> 1000000"
    using write_varint_short [of "ID StatusResponse"] write_varint_short [of "i32_of_usize (length json)"]
    by (simp add: StatusResponse_def write_string_def del: varint_len_bounds)
  obtain k bs where "send env StatusResponse ?p ?c = (Inr (), ?c\<lparr>codec := k, wire := wire ?c @ bs\<rparr>)"
      "compression_threshold k = compression_threshold (codec ?c)"
      "reads_as inflate (compression_threshold (codec ?c)) bs StatusResponse ?p"
    by (rule send_delivers [OF assms(1) StatusResponse.packet_impl_axioms ok small])
  then show thesis
    using assms(2,3)
    by (intro that [of bs k]) (simp_all add: handle_status_request_def mark_status_request_seen_def Let_def)
qed

definition status_waiting :: "server_config \<Rightarrow> connection" where
  "status_waiting cfg =
     (connection_new cfg)\<lparr>conn_state := \<lparr>current = Status, status_request_seen = False\<rparr>\<rparr>"

lemma status_waiting_simps [simp]:
  "current (conn_state (status_waiting cfg)) = Status" "\<not> status_request_seen (conn_state (status_waiting cfg))"
  "wire (status_waiting cfg) = []" "compression_threshold (codec (status_waiting cfg)) = None"
  "config (status_waiting cfg) = cfg"
  by (simp_all add: status_waiting_def connection_new_def codec_new_def)

lemma ping_delivers:
  assumes "env_ok env inflate" "decode_as PingRequest frame = Inr p"
  obtains k bs where "handle_ping env frame c = (Inr Close, c\<lparr>codec := k, wire := wire c @ bs\<rparr>)"
    "reads_as inflate (compression_threshold (codec c)) bs PongResponse \<lparr>pong_payload = ping_payload p\<rparr>"
proof -
  let ?p = "\<lparr>pong_payload = ping_payload p\<rparr>"
  have small: "length (write_varint (ID PongResponse) @ fst (encode_body PongResponse ?p)) \<le> 1000000"
    using write_varint_short [of "ID PongResponse"]
    by (simp add: PongResponse_def write_i64_def del: varint_len_bounds)
  obtain k bs where "send env PongResponse ?p c = (Inr (), c\<lparr>codec := k, wire := wire c @ bs\<rparr>)"
      "reads_as inflate (compression_threshold (codec c)) bs PongResponse ?p"
    by (rule send_delivers [OF assms(1) PongResponse.packet_impl_axioms TrueI small])
  then show thesis using assms(2) by (intro that [of bs k]) (simp_all add: handle_ping_def)
qed

subsection \<open>An environment\<close>

lemma ideal_env_ok: "env_ok ideal_env stored_inflate"
  by (simp add: env_ok_def ideal_env_def stored_lossless stored_deflate_def md5_digest_def)

lemma sample_name_valid: "validate_username (ascii ''Notch'') = Inr ()"
  by (simp add: validate_username_def ascii_def OFFLINE_MAX_USERNAME_CHARS_def is_ascii_alphanumeric_def
      utf8_char_width_def)

definition sample_frame :: "'p packet \<Rightarrow> i32 option \<Rightarrow> 'p \<Rightarrow> byte list" where
  "sample_frame P t x =
     snd (snd (codec_encode stored_deflate P (codec_new\<lparr>compression_threshold := t\<rparr>) x))"

lemma sample_frame_reads:
  assumes "packet_impl P ok" "ok x" "length (write_varint (ID P) @ fst (encode_body P x)) \<le> 1000000"
  shows "reads_as stored_inflate t (sample_frame P t x) P x"
proof -
  obtain k bs where k: "codec_encode stored_deflate P (codec_new\<lparr>compression_threshold := t\<rparr>) x = (Inr (), k, bs)"
    using codec_encode_succeeds [of P x stored_deflate _ "codec_new\<lparr>compression_threshold := t\<rparr>"] assms(3)
      packet_impl.encode_total [OF assms(1)] by (force simp: MAX_PACKET_SIZE_def stored_deflate_def)
  have "reads_as stored_inflate (compression_threshold (codec_new\<lparr>compression_threshold := t\<rparr>)) bs P x"
    using stored_lossless assms _ k by (rule encoded_reads_as) (simp add: stored_deflate_def)
  with k show ?thesis by (simp add: sample_frame_def)
qed

lemma varint_len_le: "varint_len v \<le> 5"
  using write_varint_short [of v] by simp

definition sample_hello :: "next_state \<Rightarrow> handshake" where
  "sample_hello next =
     \<lparr>protocol_version = 776, server_address = [], server_port = 25565, next_state = next\<rparr>"

lemma sample_hello_reads:
  "reads_as stored_inflate None (sample_frame Handshake None (sample_hello next)) Handshake (sample_hello next)"
  by (rule sample_frame_reads [OF Handshake.packet_impl_axioms])
     (use varint_len_le [of 0] varint_len_le [of 776] varint_len_le [of "i32_of_usize 0"]
        varint_len_le [of "next_state_code next"] in
        \<open>simp_all add: sample_hello_def handshake_ok_def string_ok_def Handshake_def write_string_def write_u16_def
          del: varint_len_bounds\<close>)

lemma login_start_small:
  assumes "login_start_ok s"
  shows "length (write_varint (ID LoginStart) @ fst (encode_body LoginStart s)) \<le> 1000000"
proof -
  have "length (ls_name s) \<le> 48"
    using assms by (simp add: login_start_ok_def string_ok_def MAX_USERNAME_CHARS_def MAX_BYTES_PER_CHAR_def)
  then show ?thesis
    using varint_len_le [of 0] varint_len_le [of "i32_of_usize (length (ls_name s))"]
    by (simp add: LoginStart_def write_string_def write_uuid_def del: varint_len_bounds)
qed

lemma sample_start_reads:
  "reads_as stored_inflate t (sample_frame LoginStart t \<lparr>ls_name = ascii ''Notch'', ls_uuid = 1\<rparr>) LoginStart
     \<lparr>ls_name = ascii ''Notch'', ls_uuid = 1\<rparr>"
  by (rule sample_frame_reads [OF LoginStart.packet_impl_axioms sample_start_ok login_start_small [OF sample_start_ok]])

lemma sample_ack_reads:
  "reads_as stored_inflate (Some 256) (sample_frame LoginAcknowledged (Some 256) ()) LoginAcknowledged ()"
  by (rule sample_frame_reads [OF LoginAcknowledged.packet_impl_axioms])
     (use varint_len_le [of 3] in \<open>simp_all add: LoginAcknowledged_def del: varint_len_bounds\<close>)

lemma sample_request_reads: "reads_as stored_inflate None (sample_frame StatusRequest None ()) StatusRequest ()"
  by (rule sample_frame_reads [OF StatusRequest.packet_impl_axioms])
     (use varint_len_le [of 0] in \<open>simp_all add: StatusRequest_def del: varint_len_bounds\<close>)

lemma sample_ping_reads:
  "reads_as stored_inflate None (sample_frame PingRequest None p) PingRequest p"
  by (rule sample_frame_reads [OF PingRequest.packet_impl_axioms])
     (use varint_len_le [of 1] in \<open>simp_all add: PingRequest_def write_i64_def del: varint_len_bounds\<close>)

end
