(* ===== verification/Dialogue.thy ===== *)
theory Dialogue
  imports Exchange
begin

text \<open>
  Which dialogues the handlers of \<open>crates/net/src/connection.rs\<close> accept: for each state of a connection
  that is still open, the frames its client must have sent to bring it there, as a shape that a list of
  frames has or has not.
\<close>

definition asks_for_status :: "raw_packet \<Rightarrow> bool" where
  "asks_for_status f \<longleftrightarrow> raw_id f = 0 \<and>
     (case decode_as Handshake f of Inl _ \<Rightarrow> False | Inr h \<Rightarrow> next_state h = NS_Status)"

definition asks_for_login :: "raw_packet \<Rightarrow> bool" where
  "asks_for_login f \<longleftrightarrow> raw_id f = 0 \<and>
     (case decode_as Handshake f of Inl _ \<Rightarrow> False | Inr h \<Rightarrow> next_state h \<noteq> NS_Status)"

definition valid_start :: "raw_packet \<Rightarrow> bool" where
  "valid_start f \<longleftrightarrow> raw_id f = 0 \<and>
     (case decode_as LoginStart f of Inl _ \<Rightarrow> False | Inr s \<Rightarrow> validate_username (ls_name s) = Inr ())"

fun dialogue :: "state \<Rightarrow> bool \<Rightarrow> raw_packet list \<Rightarrow> bool" where
  "dialogue Handshaking seen fs = (fs = [] \<and> \<not> seen)"
| "dialogue Status seen fs =
     (case fs of
        [hello] \<Rightarrow> asks_for_status hello \<and> \<not> seen
      | [hello, request] \<Rightarrow> asks_for_status hello \<and> raw_id request = 0 \<and> seen
      | _ \<Rightarrow> False)"
| "dialogue Login seen fs =
     (case fs of [] \<Rightarrow> False | hello # starts \<Rightarrow> asks_for_login hello \<and> list_all valid_start starts \<and> \<not> seen)"
| "dialogue Configuration seen fs =
     (case fs of
        [] \<Rightarrow> False
      | hello # rest \<Rightarrow> asks_for_login hello \<and> rest \<noteq> [] \<and> list_all valid_start (butlast rest) \<and>
          raw_id (last rest) = 3 \<and> \<not> seen)"
| "dialogue Play seen fs = False"

text \<open>The four ways a handler lets the connection go on.\<close>

lemma handle_continue [consumes 1, case_names status_hello login_hello status_request login_start login_ack]:
  assumes "handle env f c = (Inr Continue, c')"
  obtains "current (conn_state c) = Handshaking" "asks_for_status f"
      "conn_state c' = (conn_state c)\<lparr>current := Status\<rparr>"
  | "current (conn_state c) = Handshaking" "asks_for_login f"
      "conn_state c' = (conn_state c)\<lparr>current := Login\<rparr>"
  | "current (conn_state c) = Status" "raw_id f = 0" "\<not> status_request_seen (conn_state c)"
      "conn_state c' = (conn_state c)\<lparr>status_request_seen := True\<rparr>"
  | "current (conn_state c) = Login" "valid_start f" "conn_state c' = conn_state c"
  | "current (conn_state c) = Login" "raw_id f = 3"
      "conn_state c' = (conn_state c)\<lparr>current := Configuration\<rparr>"
proof (cases rule: handle_cases [where c = c and frame = f and env = env])
  case handshake
  then obtain h where h: "decode_as Handshake f = Inr h"
    using assms by (auto simp: handle_handshake_def split: sum.splits)
  show thesis
  proof (cases "next_state h = NS_Status")
    case True
    with handshake h assms show thesis
      by (intro that(1)) (auto simp: handle_handshake_def move_to_def transition_def asks_for_status_def)
  next
    case False
    with handshake h assms show thesis
      by (intro that(2)) (auto simp: handle_handshake_def move_to_def transition_def asks_for_login_def
          split: next_state.splits)
  qed
next
  case status
  with assms show thesis
    by (intro that(3)) (auto simp: handle_status_request_def mark_status_request_seen_def Let_def
        split: sum.splits prod.splits if_splits dest!: send_keeps)
next
  case ping
  with assms handle_ping_keeps show thesis by fastforce
next
  case login_start
  with assms handle_login_start_keeps [of env f c] have "conn_state c' = conn_state c" by auto
  moreover have "valid_start f"
    using assms login_start
    by (auto simp: valid_start_def handle_login_start_def split: sum.splits prod.splits)
  ultimately show thesis using login_start by (intro that(4))
next
  case login_ack
  with assms show thesis
    by (intro that(5)) (auto simp: handle_login_acknowledged_def move_to_def transition_def)
qed (use assms in auto)

lemma dialogue_snoc:
  assumes "handle env f c = (Inr Continue, c')"
    and "dialogue (current (conn_state c)) (status_request_seen (conn_state c)) fs"
  shows "dialogue (current (conn_state c')) (status_request_seen (conn_state c')) (fs @ [f])"
  using assms(1)
proof (cases rule: handle_continue)
  case status_request
  with assms(2) show ?thesis by (auto split: list.splits)
next
  case login_ack
  with assms(2) show ?thesis by (cases fs) (auto simp: butlast_append)
qed (use assms(2) in \<open>auto split: list.splits\<close>)

text \<open>
  What an open connection has received. Whatever the environment, if a connection is still open after
  a sequence of frames, the frames are a dialogue of the state it is in.
\<close>

lemma open_dialogue:
  assumes "run env (connection_new cfg) (map (\<lambda>f. Frame (Inr f)) fs) = (None, c)"
  shows "dialogue (current (conn_state c)) (status_request_seen (conn_state c)) fs"
  using assms
proof (induction fs arbitrary: c rule: rev_induct)
  case Nil
  then show ?case by (auto simp: connection_new_def state_new_def)
next
  case (snoc f fs)
  from snoc.prems obtain d where
      d: "run env (connection_new cfg) (map (\<lambda>f. Frame (Inr f)) fs) = (None, d)" "handle env f d = (Inr Continue, c)"
    by (auto simp: run_append split: prod.splits option.splits sum.splits flow.splits)
  from d(2) snoc.IH [OF d(1)] show ?case by (rule dialogue_snoc)
qed

subsection \<open>Every dialogue is accepted\<close>

text \<open>The status document of this configuration can be rendered, within the limit of its field.\<close>

definition status_fits :: "environment \<Rightarrow> server_config \<Rightarrow> bool" where
  "status_fits env cfg \<longleftrightarrow>
     (case env_json env (json_of_status (status_response_json_new (motd cfg) (max_players cfg) 0)) of
        Inl _ \<Rightarrow> False
      | Inr json \<Rightarrow> string_ok MAX_STATUS_JSON_CHARS json)"

lemma reads_as_not_empty: "reads_as inflate t bs P x \<Longrightarrow> bs \<noteq> []"
proof
  assume "reads_as inflate t bs P x" "bs = []"
  then have "fst (codec_decode inflate (codec_new\<lparr>compression_threshold := t\<rparr>) []) \<noteq> Inr None"
    unfolding reads_as_def by (force dest!: spec [of _ "codec_new\<lparr>compression_threshold := t\<rparr>"] spec [of _ "[]"])
  then show False
    by (simp add: codec_decode_def read_varint_slice_def slice_leb.simps MAX_VARINT_LEN_def)
qed

lemma hello_runs:
  "asks_for_status f \<Longrightarrow> handle env f (connection_new cfg) = (Inr Continue, status_waiting cfg)"
  "asks_for_login f \<Longrightarrow> handle env f (connection_new cfg) = (Inr Continue, login_waiting cfg)"
  using hello_status [of f _ env cfg] hello_login [of f _ env cfg]
  by (auto simp: asks_for_status_def asks_for_login_def status_waiting_def split: sum.splits)

lemma request_answered:
  assumes "env_ok env inflate" "status_fits env cfg" "raw_id f = 0"
  obtains c where "handle env f (status_waiting cfg) = (Inr Continue, c)"
    "conn_state c = \<lparr>current = Status, status_request_seen = True\<rparr>" "wire c \<noteq> []"
proof -
  let ?w = "status_waiting cfg"
  from assms(2) obtain json where json: "string_ok MAX_STATUS_JSON_CHARS json"
      "env_json env (json_of_status (status_response_json_new (motd cfg) (max_players cfg) 0)) = Inr json"
    by (auto simp: status_fits_def split: sum.splits)
  obtain k bs where c: "handle_status_request env ?w = (Inr Continue,
      ?w\<lparr>conn_state := (conn_state ?w)\<lparr>status_request_seen := True\<rparr>, codec := k, wire := wire ?w @ bs\<rparr>)"
      "reads_as inflate (compression_threshold (codec ?w)) bs StatusResponse \<lparr>status_json = json\<rparr>"
    by (rule status_request_delivers [OF assms(1), of ?w json]) (simp_all add: json)
  from c(2) have "bs \<noteq> []" by (rule reads_as_not_empty)
  with c(1) assms(3) show thesis
    by (intro that) (simp_all add: handle_dispatch, simp_all add: status_waiting_def connection_new_def)
qed

lemma starts_run:
  assumes "env_ok env inflate"
  shows "current (conn_state c) = Login \<Longrightarrow> list_all valid_start fs \<Longrightarrow>
    \<exists>c'. run env c (map (\<lambda>f. Frame (Inr f)) fs) = (None, c') \<and> conn_state c' = conn_state c"
proof (induction fs arbitrary: c)
  case (Cons f fs)
  from Cons.prems(2) obtain s where s: "decode_as LoginStart f = Inr s" "validate_username (ls_name s) = Inr ()"
      "raw_id f = 0"
    by (auto simp: valid_start_def split: sum.splits)
  obtain d where d: "handle_login_start env f c = (Inr Continue, d)" "conn_state d = conn_state c"
    using login_start_delivers [OF assms s(1,2), of c] by metis
  with Cons.IH [of d] Cons.prems s(3) show ?case by (simp add: handle_dispatch)
qed simp

lemma ack_runs:
  assumes "current (conn_state c) = Login" "raw_id f = 3"
  shows "handle env f c = (Inr Continue, c\<lparr>conn_state := (conn_state c)\<lparr>current := Configuration\<rparr>\<rparr>)"
  using assms by (simp add: handle_dispatch handle_login_acknowledged_def move_to_def transition_def)

lemma dialogue_runs:
  assumes env: "env_ok env inflate" and fits: "status_fits env cfg" and d: "dialogue s seen fs"
  shows "\<exists>c. run env (connection_new cfg) (map (\<lambda>f. Frame (Inr f)) fs) = (None, c) \<and>
    conn_state c = \<lparr>current = s, status_request_seen = seen\<rparr>"
proof (cases s)
  case Handshaking
  with d show ?thesis by (simp add: connection_new_def state_new_def)
next
  case Status
  with d consider f where "fs = [f]" "asks_for_status f" "\<not> seen"
    | f g where "fs = [f, g]" "asks_for_status f" "raw_id g = 0" "seen"
    by (auto split: list.splits)
  then show ?thesis
  proof cases
    case 1
    with Status show ?thesis by (simp add: hello_runs status_waiting_def)
  next
    case 2
    obtain c where "handle env g (status_waiting cfg) = (Inr Continue, c)"
        "conn_state c = \<lparr>current = Status, status_request_seen = True\<rparr>"
      using env fits 2(3) by (rule request_answered)
    with 2 Status show ?thesis by (simp add: hello_runs)
  qed
next
  case Login
  with d obtain f gs where f: "fs = f # gs" "asks_for_login f" "list_all valid_start gs" "\<not> seen"
    by (auto split: list.splits)
  obtain c where "run env (login_waiting cfg) (map (\<lambda>f. Frame (Inr f)) gs) = (None, c)"
      "conn_state c = conn_state (login_waiting cfg)"
    using starts_run [OF env _ f(3), of "login_waiting cfg"] by auto
  with f Login show ?thesis by (simp add: hello_runs login_waiting_def)
next
  case Configuration
  with d obtain f gs g where f: "fs = f # gs @ [g]" "asks_for_login f" "list_all valid_start gs" "raw_id g = 3" "\<not> seen"
    by (auto split: list.splits) (metis append_butlast_last_id)
  obtain c where "run env (login_waiting cfg) (map (\<lambda>f. Frame (Inr f)) gs) = (None, c)"
      "conn_state c = conn_state (login_waiting cfg)"
    using starts_run [OF env _ f(3), of "login_waiting cfg"] by auto
  with f Configuration show ?thesis
    by (simp add: hello_runs run_append ack_runs) (simp add: login_waiting_def)
qed (use d in simp)

text \<open>
  C12: The language of the server, exactly. In an environment whose transport and compressor work, and with
  a status document within its limit, the sequences of frames after which a connection is open, in a
  given state and with the status request seen or not, are the dialogues of that state: nothing at
  all; a status handshake and at most one status request; a login handshake and any number of login
  starts with acceptable names; or these and one acknowledgement.
\<close>

theorem dialogues_exact:
  assumes "env_ok env inflate" "status_fits env cfg"
  shows "(\<exists>c. run env (connection_new cfg) (map (\<lambda>f. Frame (Inr f)) fs) = (None, c) \<and>
      conn_state c = \<lparr>current = s, status_request_seen = seen\<rparr>) \<longleftrightarrow> dialogue s seen fs"
  using dialogue_runs [OF assms] open_dialogue [of env cfg fs] by fastforce

theorem dialogues_exact_witness:
  "(\<exists>c. run ideal_env (connection_new server_config_default)
        (map (\<lambda>f. Frame (Inr f)) [login_hello, sample_start 1, \<lparr>raw_id = 3, raw_body = []\<rparr>]) = (None, c) \<and>
      conn_state c = \<lparr>current = Configuration, status_request_seen = False\<rparr>) \<and>
   \<not> (\<exists>c. run ideal_env (connection_new server_config_default)
        (map (\<lambda>f. Frame (Inr f)) [login_hello, login_hello]) = (None, c) \<and>
      conn_state c = \<lparr>current = Configuration, status_request_seen = False\<rparr>)"
proof -
  have fits: "status_fits ideal_env server_config_default"
    by (simp add: status_fits_def ideal_env_def string_ok_def)
  have "asks_for_login login_hello"
    using decode_login_hello by (simp add: asks_for_login_def login_hello_def)
  moreover have "valid_start (sample_start 1)"
    using decode_sample_start [of 1] sample_name_valid by (simp add: valid_start_def sample_start_def)
  ultimately show ?thesis
    unfolding dialogues_exact [OF ideal_env_ok fits] by (simp add: login_hello_def)
qed

end
