(* ===== verification/Timing.thy ===== *)
theory Timing
  imports Dialogue
begin

text \<open>
  \<open>Connection::run\<close> against a clock: the deadline of \<open>timeout(self.config.read_timeout, self.framed.next())\<close>.
  The timer is started when the loop asks for the next frame and covers the whole frame, however many
  reads it takes; while a frame is handled, in particular while an answer is being sent, no timer runs.
  \<open>Session\<close> leaves it to the environment whether the timer fires; here it fires at its deadline.

  Times are in nanoseconds. The connection is observed up to a time \<open>horizon\<close>, and a peer is the list of
  what arrives from it by then and when; it may go on sending after the horizon, so a connection whose
  timer has not fired before the horizon is still open (\<open>Pending\<close>), and nothing here makes every connection
  end. How long the transport takes to accept an answer is the parameter \<open>pace\<close>, a function of the bytes
  on the wire before and after; it is \<open>None\<close> where it never does, as with a full send buffer that the peer
  does not read (\<open>unread\<close>). Computing takes no time. As \<open>tokio::time::timeout\<close> documents, a frame that
  is there when the deadline passes is taken.
\<close>

subsection \<open>The loop\<close>

datatype arrival = Data "byte list" | HangUp | Failure io_error

type_synonym pace = "byte list \<Rightarrow> byte list \<Rightarrow> nat option"

datatype timed =
    Ended "net_error + unit" nat connection
  | Pending nat connection "byte list"
  | Blocked connection

definition timeout_of :: "server_config \<Rightarrow> nat" where
  "timeout_of cfg = 1000000000 * read_timeout cfg"

text \<open>
  The frames in the buffer, from time \<open>now\<close> on; the frame being waited for was asked for at \<open>since\<close>.
\<close>

function drive_timed :: "environment \<Rightarrow> inflater \<Rightarrow> pace \<Rightarrow> nat \<Rightarrow> nat \<Rightarrow> connection \<Rightarrow> byte list \<Rightarrow> timed" where
  "drive_timed env inflate pace now since c buf =
     (case codec_decode inflate (codec c) buf of
        (Inl e, rest, _) \<Rightarrow> Ended (Inl (Protocol e)) now c
      | (Inr None, rest, _) \<Rightarrow> Pending since c rest
      | (Inr (Some frame), rest, _) \<Rightarrow>
          (case handle env frame c of
             (r, c') \<Rightarrow>
               (case pace (wire c) (wire c') of
                  None \<Rightarrow> Blocked c
                | Some d \<Rightarrow>
                    (case r of
                       Inl e \<Rightarrow> Ended (Inl e) (now + d) c'
                     | Inr Close \<Rightarrow> Ended (Inr ()) (now + d) c'
                     | Inr Continue \<Rightarrow> drive_timed env inflate pace (now + d) (now + d) c' rest))))"
  by pat_completeness auto
termination
  by (relation "measure (\<lambda>(_, _, _, _, _, _, buf). length buf)") (auto dest: codec_decode_progress [OF sym])

declare drive_timed.simps [simp del]

fun run_timed :: "environment \<Rightarrow> inflater \<Rightarrow> io_error \<Rightarrow> pace \<Rightarrow> nat \<Rightarrow> nat \<Rightarrow> connection \<Rightarrow>
    byte list \<Rightarrow> (nat \<times> arrival) list \<Rightarrow> timed" where
  "run_timed env inflate unfinished pace horizon since c buf [] =
     (if since + timeout_of (config c) < horizon then Ended (Inl Timeout) (since + timeout_of (config c)) c
      else Pending since c buf)"
| "run_timed env inflate unfinished pace horizon since c buf ((t, a) # arrivals) =
     (let now = max t since in
       if since + timeout_of (config c) < now then Ended (Inl Timeout) (since + timeout_of (config c)) c
       else (case a of
               Data bs \<Rightarrow>
                 (case drive_timed env inflate pace now since c (buf @ bs) of
                    Pending since c rest \<Rightarrow> run_timed env inflate unfinished pace horizon since c rest arrivals
                  | r \<Rightarrow> r)
             | HangUp \<Rightarrow> Ended (if buf = [] then Inr () else Inl (Protocol (Io unfinished))) now c
             | Failure e \<Rightarrow> Ended (Inl (Protocol (Io e))) now c))"

subsection \<open>The loop without a clock\<close>

fun untimed :: "arrival \<Rightarrow> stream_event" where
  "untimed (Data bs) = Chunk bs"
| "untimed HangUp = Eof"
| "untimed (Failure e) = ReadError e"

text \<open>The steps of \<open>drive_timed\<close>, as rules.\<close>

lemma drive_timed_cases [case_names bad wait stalls fails closes continues]:
  obtains e rest k where "codec_decode inflate (codec c) buf = (Inl e, rest, k)"
      "drive_timed env inflate pace now since c buf = Ended (Inl (Protocol e)) now c"
      "drive env inflate c buf = (Some (Inl (Protocol e)), c, rest)"
  | k where "codec_decode inflate (codec c) buf = (Inr None, buf, k)"
      "drive_timed env inflate pace now since c buf = Pending since c buf"
      "drive env inflate c buf = (None, c, buf)"
  | frame rest k r c' where "codec_decode inflate (codec c) buf = (Inr (Some frame), rest, k)"
      "handle env frame c = (r, c')" "pace (wire c) (wire c') = None"
      "drive_timed env inflate pace now since c buf = Blocked c"
  | frame rest k e c' d where "codec_decode inflate (codec c) buf = (Inr (Some frame), rest, k)"
      "handle env frame c = (Inl e, c')" "pace (wire c) (wire c') = Some d"
      "drive_timed env inflate pace now since c buf = Ended (Inl e) (now + d) c'"
      "drive env inflate c buf = (Some (Inl e), c', rest)"
  | frame rest k c' d where "codec_decode inflate (codec c) buf = (Inr (Some frame), rest, k)"
      "handle env frame c = (Inr Close, c')" "pace (wire c) (wire c') = Some d"
      "drive_timed env inflate pace now since c buf = Ended (Inr ()) (now + d) c'"
      "drive env inflate c buf = (Some (Inr ()), c', rest)"
  | frame rest k c' d where "codec_decode inflate (codec c) buf = (Inr (Some frame), rest, k)"
      "handle env frame c = (Inr Continue, c')" "pace (wire c) (wire c') = Some d"
      "drive_timed env inflate pace now since c buf = drive_timed env inflate pace (now + d) (now + d) c' rest"
      "drive env inflate c buf = drive env inflate c' rest"
proof (cases rule: drive_cases [where env = env and inflate = inflate and c = c and buf = buf])
  case (bad e rest k)
  then show thesis by (intro that(1)) (simp_all add: drive_timed.simps [of env inflate pace now since c buf])
next
  case (wait k)
  then show thesis by (intro that(2)) (simp_all add: drive_timed.simps [of env inflate pace now since c buf])
next
  case (fails frame rest k e c')
  then show thesis
    by (cases "pace (wire c) (wire c')")
       (use that(3,4) in \<open>simp_all add: drive_timed.simps [of env inflate pace now since c buf]\<close>)
next
  case (closes frame rest k c')
  then show thesis
    by (cases "pace (wire c) (wire c')")
       (use that(3,5) in \<open>simp_all add: drive_timed.simps [of env inflate pace now since c buf]\<close>)
next
  case (continues frame rest k c')
  then show thesis
    by (cases "pace (wire c) (wire c')")
       (use that(3,6) in \<open>simp_all add: drive_timed.simps [of env inflate pace now since c buf]\<close>)
qed

lemma drive_timed_drive:
  "drive_timed env inflate pace now since c buf = Ended r t c' \<Longrightarrow>
     \<exists>rest. drive env inflate c buf = (Some r, c', rest)"
  "drive_timed env inflate pace now since c buf = Pending t c' rest \<Longrightarrow>
     drive env inflate c buf = (None, c', rest)"
proof (induction env inflate pace now since c buf rule: drive_timed.induct)
  case (1 env inflate pace now since c buf)
  {
    case 1
    show ?case
    proof (cases rule: drive_timed_cases [where env = env and inflate = inflate and c = c and buf = buf
          and pace = pace and now = now and since = since])
      case (continues frame rest k c' d)
      then show ?thesis
        using "1.IH"(1) [OF continues(1) [symmetric] refl refl refl continues(2) [symmetric] continues(3) refl refl] 1
        by simp
    qed (use 1 in auto)
  next
    case 2
    show ?case
    proof (cases rule: drive_timed_cases [where env = env and inflate = inflate and c = c and buf = buf
          and pace = pace and now = now and since = since])
      case (continues frame rest k c' d)
      then show ?thesis
        using "1.IH"(2) [OF continues(1) [symmetric] refl refl refl continues(2) [symmetric] continues(3) refl refl] 2
        by simp
    qed (use 2 in auto)
  }
qed

lemma handle_keeps_config: "handle env frame c = (r, c') \<Longrightarrow> config c' = config c"
  by (cases rule: handle_cases [where c = c and frame = frame and env = env])
     (auto simp: handle_handshake_def handle_login_acknowledged_def split: sum.splits next_state.splits
       dest: move_to_keeps handle_status_request_keeps handle_ping_keeps handle_login_start_keeps)

lemma drive_config: "drive env inflate c buf = (r, c', rest) \<Longrightarrow> config c' = config c"
proof (induction env inflate c buf rule: drive.induct)
  case (1 env inflate c buf)
  show ?case
  proof (cases rule: drive_cases [where env = env and inflate = inflate and c = c and buf = buf])
    case (continues frame src k d)
    with "1.IH" [OF continues(1) [symmetric] refl refl refl continues(2) [symmetric] refl refl] "1.prems"
      handle_keeps_config [OF continues(2)] show ?thesis by simp
  qed (use "1.prems" in \<open>auto dest: handle_keeps_config\<close>)
qed

lemma drive_timed_later: "drive_timed env inflate pace now since c buf = Ended r t c' \<Longrightarrow> now \<le> t"
proof (induction env inflate pace now since c buf rule: drive_timed.induct)
  case (1 env inflate pace now since c buf)
  show ?case
  proof (cases rule: drive_timed_cases [where env = env and inflate = inflate and c = c and buf = buf
        and pace = pace and now = now and since = since])
    case (continues frame rest k c' d)
    then show ?thesis
      using "1.IH" [OF continues(1) [symmetric] refl refl refl continues(2) [symmetric] continues(3) refl refl] "1.prems"
      by simp
  qed (use "1.prems" in auto)
qed

text \<open>
  The first \<open>n\<close> arrivals all come in time: when each of them comes, the connection is still waiting, and
  the deadline of the frame it waits for has not passed. With the horizon \<open>0\<close>, \<open>run_timed\<close> is the state
  of the connection right after the given arrivals.
\<close>

definition in_time :: "environment \<Rightarrow> inflater \<Rightarrow> io_error \<Rightarrow> pace \<Rightarrow> nat \<Rightarrow> connection \<Rightarrow> byte list \<Rightarrow>
    (nat \<times> arrival) list \<Rightarrow> nat \<Rightarrow> bool" where
  "in_time env inflate unfinished pace since c buf arrivals n \<longleftrightarrow>
     (\<forall>k < n. \<exists>s d rest. run_timed env inflate unfinished pace 0 since c buf (take k arrivals) = Pending s d rest \<and>
        fst (arrivals ! k) \<le> s + timeout_of (config c))"

text \<open>The timer fires after the first \<open>n\<close> arrivals: exactly at the deadline, before anything else comes.\<close>

definition timer_fires :: "environment \<Rightarrow> inflater \<Rightarrow> io_error \<Rightarrow> pace \<Rightarrow> nat \<Rightarrow> nat \<Rightarrow> connection \<Rightarrow> byte list \<Rightarrow>
    (nat \<times> arrival) list \<Rightarrow> nat \<Rightarrow> nat \<Rightarrow> connection \<Rightarrow> bool" where
  "timer_fires env inflate unfinished pace horizon since c buf arrivals n t c' \<longleftrightarrow>
     (\<exists>s rest. run_timed env inflate unfinished pace 0 since c buf (take n arrivals) = Pending s c' rest \<and>
        t = s + timeout_of (config c)) \<and>
     t < (if n < length arrivals then fst (arrivals ! n) else horizon)"

lemma in_time_0 [simp]: "in_time env inflate unfinished pace since c buf arrivals 0"
  by (simp add: in_time_def)

lemma run_timed_Data:
  assumes "u \<le> since + timeout_of (config c)"
    and "drive_timed env inflate pace (max u since) since c (buf @ bs) = Pending s d rest"
  shows "run_timed env inflate unfinished pace horizon since c buf ((u, Data bs) # arrivals) =
    run_timed env inflate unfinished pace horizon s d rest arrivals"
  using assms by (auto simp: Let_def less_max_iff_disj)

lemma in_time_Suc:
  assumes "u \<le> since + timeout_of (config c)"
    and "drive_timed env inflate pace (max u since) since c (buf @ bs) = Pending s d rest"
    and "in_time env inflate unfinished pace s d rest arrivals n"
  shows "in_time env inflate unfinished pace since c buf ((u, Data bs) # arrivals) (Suc n)"
proof -
  have "config d = config c" using drive_config drive_timed_drive(2) [OF assms(2)] by blast
  with assms(3) show ?thesis
    unfolding in_time_def
    by (auto simp: less_Suc_eq_0_disj run_timed_Data [OF assms(1,2)] assms(1) simp del: run_timed.simps(2))
qed

lemma timer_fires_Suc:
  assumes "u \<le> since + timeout_of (config c)"
    and "drive_timed env inflate pace (max u since) since c (buf @ bs) = Pending s d rest"
    and "timer_fires env inflate unfinished pace horizon s d rest arrivals n t c'"
  shows "timer_fires env inflate unfinished pace horizon since c buf ((u, Data bs) # arrivals) (Suc n) t c'"
proof -
  have "config d = config c" using drive_config drive_timed_drive(2) [OF assms(2)] by blast
  with assms(3) show ?thesis
    by (auto simp: timer_fires_def run_timed_Data [OF assms(1,2)] simp del: run_timed.simps(2))
qed

lemma run_timed_ended:
  "run_timed env inflate unfinished pace horizon since c buf arrivals = Ended r t c' \<Longrightarrow>
     \<exists>n \<le> length arrivals. in_time env inflate unfinished pace since c buf arrivals n \<and>
       (timer_fires env inflate unfinished pace horizon since c buf arrivals n t c' \<and> r = Inl Timeout \<and>
          run_bytes env inflate unfinished c buf (map (\<lambda>a. untimed (snd a)) (take n arrivals) @ [Quiet]) = (Some r, c') \<or>
        0 < n \<and> fst (arrivals ! (n - 1)) \<le> t \<and>
          run_bytes env inflate unfinished c buf (map (\<lambda>a. untimed (snd a)) (take n arrivals)) = (Some r, c'))"
proof (induction env inflate unfinished pace horizon since c buf arrivals rule: run_timed.induct)
  case (1 env inflate unfinished pace horizon since c buf)
  then show ?case by (auto simp: timer_fires_def split: if_splits)
next
  case (2 env inflate unfinished pace horizon since c buf u a arrivals)
  show ?case
  proof (cases "since + timeout_of (config c) < max u since")
    case True
    then have "since + timeout_of (config c) < u" by (simp add: less_max_iff_disj)
    with "2.prems" show ?thesis by (intro exI [of _ 0]) (auto simp: timer_fires_def)
  next
    case False
    then have u: "u \<le> since + timeout_of (config c)" by simp
    then have first: "in_time env inflate unfinished pace since c buf ((u, a) # arrivals) (Suc 0)"
      by (simp add: in_time_def)
    show ?thesis
    proof (cases a)
      case (Data bs)
      show ?thesis
      proof (cases "drive_timed env inflate pace (max u since) since c (buf @ bs)")
        case (Ended r' t' d)
        with drive_timed_drive(1) [OF Ended] drive_timed_later [OF Ended] "2.prems" False Data first show ?thesis
          by (intro exI [of _ "Suc 0"]) (auto simp: Let_def)
      next
        case (Pending s d rest)
        note step = u Pending
        have run: "run_timed env inflate unfinished pace horizon s d rest arrivals = Ended r t c'"
          using "2.prems" Data run_timed_Data [OF step] by simp
        from "2.IH" [OF refl False Data Pending run] obtain n where n: "n \<le> length arrivals"
            "in_time env inflate unfinished pace s d rest arrivals n"
            "timer_fires env inflate unfinished pace horizon s d rest arrivals n t c' \<and> r = Inl Timeout \<and>
              run_bytes env inflate unfinished d rest (map (\<lambda>a. untimed (snd a)) (take n arrivals) @ [Quiet]) = (Some r, c') \<or>
             0 < n \<and> fst (arrivals ! (n - 1)) \<le> t \<and>
              run_bytes env inflate unfinished d rest (map (\<lambda>a. untimed (snd a)) (take n arrivals)) = (Some r, c')"
          by blast
        with drive_timed_drive(2) [OF Pending] Data in_time_Suc [OF step n(2)]
          timer_fires_Suc [OF step, of unfinished horizon arrivals n t c'] show ?thesis
          by (intro exI [of _ "Suc n"]) (auto simp: nth_Cons' simp del: run_timed.simps)
      qed (use "2.prems" False Data in \<open>simp add: Let_def\<close>)
    qed (use "2.prems" False first in \<open>auto simp: Let_def intro!: exI [of _ "Suc 0"]\<close>)
  qed
qed

subsection \<open>How long a connection lives\<close>

text \<open>A transport that delivers every answer within \<open>D\<close>.\<close>

definition paced :: "nat \<Rightarrow> pace \<Rightarrow> bool" where
  "paced D pace \<longleftrightarrow> (\<forall>w w'. case pace w w' of None \<Rightarrow> False | Some d \<Rightarrow> d \<le> D)"

lemma pacedD: "paced D pace \<Longrightarrow> \<exists>d. pace w w' = Some d \<and> d \<le> D"
  unfolding paced_def by (drule spec [of _ w], drule spec [of _ w']) (simp split: option.splits)

lemma paced_not_blocked:
  "paced D pace \<Longrightarrow> drive_timed env inflate pace now since c buf \<noteq> Blocked d"
proof (induction env inflate pace now since c buf rule: drive_timed.induct)
  case (1 env inflate pace now since c buf)
  show ?case
  proof (cases rule: drive_timed_cases [where env = env and inflate = inflate and c = c and buf = buf
        and pace = pace and now = now and since = since])
    case (stalls frame rest k r c')
    then show ?thesis using pacedD [OF "1.prems", of "wire c" "wire c'"] by simp
  next
    case (continues frame rest k c' d)
    then show ?thesis
      using "1.IH" [OF continues(1) [symmetric] refl refl refl continues(2) [symmetric] continues(3) refl refl "1.prems"]
      by simp
  qed simp_all
qed

text \<open>
  The frames a connection that is not a login can still handle, the last of which ends it.
\<close>

definition frames_left :: "connection_state \<Rightarrow> nat" where
  "frames_left s = (if current s = Handshaking then 3 else if status_request_seen s then 1 else 2)"

definition not_login :: "connection \<Rightarrow> bool" where
  "not_login c \<longleftrightarrow> current (conn_state c) \<in> {Handshaking, Status}"

lemma handle_not_login: "handle env frame c = (r, c') \<Longrightarrow> not_login c' \<Longrightarrow> not_login c"
  by (cases rule: handle_cases [where c = c and frame = frame and env = env])
     (auto simp: not_login_def handle_login_acknowledged_def move_to_def transition_Inr split: sum.splits
       dest: handle_login_start_keeps)

lemma drive_not_login: "drive env inflate c buf = (r, c', rest) \<Longrightarrow> not_login c' \<Longrightarrow> not_login c"
proof (induction env inflate c buf rule: drive.induct)
  case (1 env inflate c buf)
  show ?case
  proof (cases rule: drive_cases [where env = env and inflate = inflate and c = c and buf = buf])
    case (continues frame src k d)
    with "1.IH" [OF continues(1) [symmetric] refl refl refl continues(2) [symmetric] refl refl] "1.prems"
      handle_not_login [OF continues(2)] show ?thesis by simp
  qed (use "1.prems" in \<open>auto dest: handle_not_login\<close>)
qed

lemma drive_timed_not_login:
  "drive_timed env inflate pace now since c buf = Ended r t c' \<Longrightarrow> not_login c' \<Longrightarrow> not_login c"
  "drive_timed env inflate pace now since c buf = Pending t c' rest \<Longrightarrow> not_login c' \<Longrightarrow> not_login c"
  by (auto dest!: drive_timed_drive dest: drive_not_login)

lemma run_timed_not_login:
  "run_timed env inflate unfinished pace horizon since c buf arrivals = Ended r t c' \<Longrightarrow> not_login c' \<Longrightarrow> not_login c"
  "run_timed env inflate unfinished pace horizon since c buf arrivals = Pending t c' rest \<Longrightarrow> not_login c' \<Longrightarrow> not_login c"
proof (induction env inflate unfinished pace horizon since c buf arrivals rule: run_timed.induct)
  case (2 env inflate unfinished pace horizon since c buf u a arrivals)
  {
    case 1
    then show ?case
      by (auto simp: Let_def split: if_splits arrival.splits timed.splits
          dest: drive_timed_not_login "2.IH"(1) [OF refl])
  next
    case 2
    then show ?case
      by (auto simp: Let_def split: if_splits arrival.splits timed.splits
          dest: drive_timed_not_login "2.IH"(2) [OF refl])
  }
qed (auto split: if_splits)

lemma frames_left_pos: "1 \<le> frames_left s"
  by (simp add: frames_left_def)

lemma one_frame:
  assumes "t \<le> since + T + D"
  shows "t \<le> since + frames_left s * (T + D)"
proof -
  have "t \<le> since + 1 * (T + D)" using assms by simp
  also have "\<dots> \<le> since + frames_left s * (T + D)"
    by (intro add_left_mono mult_le_mono1) (rule frames_left_pos)
  finally show ?thesis .
qed

lemma handle_frames_left:
  assumes "handle env frame c = (Inr Continue, c')" "not_login c'"
  shows "Suc (frames_left (conn_state c')) \<le> frames_left (conn_state c)"
  using assms(1) by (cases rule: handle_continue) (use assms(2) in \<open>auto simp: frames_left_def not_login_def\<close>)

text \<open>Each frame is there within the timeout of being asked for, and answered within \<open>D\<close>.\<close>

lemma drive_timed_bound:
  assumes "paced D pace"
  shows "now \<le> since + timeout_of (config c) \<Longrightarrow>
    (case drive_timed env inflate pace now since c buf of
       Ended r t c' \<Rightarrow> not_login c' \<longrightarrow>
         t \<le> since + frames_left (conn_state c) * (timeout_of (config c) + D)
     | Pending since' c' rest \<Rightarrow> config c' = config c \<and> (not_login c' \<longrightarrow>
         since' + frames_left (conn_state c') * (timeout_of (config c) + D) \<le>
         since + frames_left (conn_state c) * (timeout_of (config c) + D))
     | Blocked _ \<Rightarrow> False)"
  using assms
proof (induction env inflate pace now since c buf rule: drive_timed.induct)
  case (1 env inflate pace now since c buf)
  let ?T = "timeout_of (config c)" and ?n = "frames_left (conn_state c)"
  show ?case
  proof (cases rule: drive_timed_cases [where env = env and inflate = inflate and c = c and buf = buf
        and pace = pace and now = now and since = since])
    case (stalls frame rest k r c')
    then show ?thesis using pacedD [OF "1.prems"(2), of "wire c" "wire c'"] by simp
  next
    case (fails frame rest k e c' d)
    then show ?thesis
      using pacedD [OF "1.prems"(2), of "wire c" "wire c'"] "1.prems"(1) by (auto intro!: one_frame)
  next
    case (closes frame rest k c' d)
    then show ?thesis
      using pacedD [OF "1.prems"(2), of "wire c" "wire c'"] "1.prems"(1) by (auto intro!: one_frame)
  next
    case (continues frame rest k c' d)
    have d: "d \<le> D" using pacedD [OF "1.prems"(2), of "wire c" "wire c'"] continues(3) by simp
    have cfg: "config c' = config c" using continues(2) by (rule handle_keeps_config)
    note IH = "1.IH" [OF continues(1) [symmetric] refl refl refl continues(2) [symmetric] continues(3) refl refl
        _ "1.prems"(2), unfolded cfg]
    have step: "now + d + frames_left (conn_state c') * (?T + D) \<le> since + ?n * (?T + D)" if "not_login c'"
    proof -
      have "(frames_left (conn_state c') + 1) * (?T + D) \<le> ?n * (?T + D)"
        using handle_frames_left [OF continues(2) that] by (intro mult_le_mono1) simp
      then show ?thesis using "1.prems"(1) d by (simp add: algebra_simps)
    qed
    show ?thesis
    proof (cases "drive_timed env inflate pace (now + d) (now + d) c' rest")
      case (Ended r t c2)
      have "not_login c'" if "not_login c2"
      proof -
        from drive_timed_drive(1) [OF Ended] obtain rest' where "drive env inflate c' rest = (Some r, c2, rest')" ..
        with that show ?thesis by (metis drive_not_login)
      qed
      with IH Ended step continues(4) show ?thesis by fastforce
    next
      case (Pending since' c2 rest')
      have "not_login c'" if "not_login c2"
        using drive_timed_drive(2) [OF Pending] that by (metis drive_not_login)
      with IH Pending step continues(4) show ?thesis by fastforce
    next
      case (Blocked c2)
      with paced_not_blocked [OF "1.prems"(2)] show ?thesis by metis
    qed
  qed (use "1.prems"(1) in \<open>auto intro!: one_frame\<close>)
qed

lemma run_timed_bound:
  assumes "paced D pace"
  shows "case run_timed env inflate unfinished pace horizon since c buf arrivals of
      Ended r t c' \<Rightarrow> not_login c' \<longrightarrow> t \<le> since + frames_left (conn_state c) * (timeout_of (config c) + D)
    | Pending since' c' rest \<Rightarrow> config c' = config c \<and> horizon \<le> since' + timeout_of (config c) \<and> (not_login c' \<longrightarrow>
        since' + frames_left (conn_state c') * (timeout_of (config c) + D) \<le>
        since + frames_left (conn_state c) * (timeout_of (config c) + D))
    | Blocked _ \<Rightarrow> False"
  using assms
proof (induction env inflate unfinished pace horizon since c buf arrivals rule: run_timed.induct)
  case (1 env inflate unfinished pace horizon since c buf)
  show ?case using one_frame [of "since + timeout_of (config c)" since "timeout_of (config c)" D] by simp
next
  case (2 env inflate unfinished pace horizon since c buf u a arrivals)
  let ?T = "timeout_of (config c)"
  show ?case
  proof (cases "since + ?T < max u since")
    case True
    then have "since + ?T < u" by (simp add: less_max_iff_disj)
    then show ?thesis using one_frame [of "since + ?T" since ?T D] by simp
  next
    case False
    then have now: "max u since \<le> since + ?T" by simp
    show ?thesis
    proof (cases a)
      case (Data bs)
      note bound = drive_timed_bound [OF "2.prems" now, of env inflate "buf @ bs"]
      show ?thesis
      proof (cases "drive_timed env inflate pace (max u since) since c (buf @ bs)")
        case (Ended r' t' d)
        with bound False Data show ?thesis by (simp add: Let_def)
      next
        case (Pending since' d rest)
        let ?rest = "run_timed env inflate unfinished pace horizon since' d rest arrivals"
        have run: "run_timed env inflate unfinished pace horizon since c buf ((u, a) # arrivals) = ?rest"
          using False Data Pending by (simp add: Let_def)
        have d: "config d = config c" "not_login d \<Longrightarrow>
            since' + frames_left (conn_state d) * (?T + D) \<le> since + frames_left (conn_state c) * (?T + D)"
          using bound Pending by simp_all
        have "not_login d" if "?rest = Ended r t c'" "not_login c'" for r t c'
          using run_timed_not_login(1) [OF that] .
        moreover have "not_login d" if "?rest = Pending t c' rest'" "not_login c'" for t c' rest'
          using run_timed_not_login(2) [OF that] .
        ultimately show ?thesis
          using "2.IH" [OF refl False Data Pending "2.prems"] d unfolding run by (cases ?rest) fastforce+
      next
        case (Blocked d)
        with bound show ?thesis by simp
      qed
    qed (use now False in \<open>auto simp: Let_def intro!: one_frame\<close>)
  qed
qed

subsection \<open>Frames as bytes\<close>

lemma reads_frame:
  assumes "reads_as inflate (compression_threshold (codec c)) bs P x"
  obtains raw k where "raw_id raw = ID P" "decode_as P raw = Inr x"
    "\<And>rest. codec_decode inflate (codec c) (bs @ rest) = (Inr (Some raw), rest, k)"
proof -
  have "\<exists>raw k. codec_decode inflate (codec c) (bs @ []) = (Inr (Some raw), [], k) \<and>
      raw_id raw = ID P \<and> decode_as P raw = Inr x"
    using assms unfolding reads_as_def by blast
  then obtain raw k where raw: "codec_decode inflate (codec c) bs = (Inr (Some raw), [], k)"
      "raw_id raw = ID P" "decode_as P raw = Inr x" by auto
  with codec_decode_extend [OF raw(1)] show thesis by (intro that [of raw]) auto
qed

lemma drive_timed_step:
  assumes "codec_decode inflate (codec c) buf = (Inr (Some frame), rest, k)"
    and "handle env frame c = (Inr Continue, c')"
  shows "drive_timed env inflate pace now since c buf =
    (case pace (wire c) (wire c') of
       None \<Rightarrow> Blocked c
     | Some d \<Rightarrow> drive_timed env inflate pace (now + d) (now + d) c' rest)"
  using assms by (simp add: drive_timed.simps [of env inflate pace now since c buf] split: option.splits)

lemma drive_timed_empty: "drive_timed env inflate pace now since c [] = Pending since c []"
proof -
  have "codec_decode inflate (codec c) [] = (Inr None, [], 0)"
    by (simp add: codec_decode_def read_varint_slice_def slice_leb.simps MAX_VARINT_LEN_def)
  then show ?thesis by (simp add: drive_timed.simps)
qed

text \<open>The hello frames, to a fresh connection.\<close>

lemma drive_timed_hello:
  assumes "reads_as inflate None bs Handshake h" "pace [] [] = Some 0"
  shows "next_state h = NS_Status \<Longrightarrow> drive_timed env inflate pace now since (connection_new cfg) (bs @ rest) =
      drive_timed env inflate pace now now (status_waiting cfg) rest"
    and "next_state h \<noteq> NS_Status \<Longrightarrow> drive_timed env inflate pace now since (connection_new cfg) (bs @ rest) =
      drive_timed env inflate pace now now (login_waiting cfg) rest"
proof -
  have "reads_as inflate (compression_threshold (codec (connection_new cfg))) bs Handshake h"
    using assms(1) by (simp add: connection_new_def codec_new_def)
  then obtain raw k where raw: "raw_id raw = ID Handshake" "decode_as Handshake raw = Inr h"
      "\<And>rest. codec_decode inflate (codec (connection_new cfg)) (bs @ rest) = (Inr (Some raw), rest, k)"
    by (rule reads_frame) blast
  have w: "wire (connection_new cfg) = []" by (simp add: connection_new_def)
  show "drive_timed env inflate pace now since (connection_new cfg) (bs @ rest) =
      drive_timed env inflate pace now now (status_waiting cfg) rest" if "next_state h = NS_Status"
    using drive_timed_step [OF raw(3) hello_runs(1)] raw(1,2) that assms(2)
    by (simp add: asks_for_status_def serverbound_ids w)
  show "drive_timed env inflate pace now since (connection_new cfg) (bs @ rest) =
      drive_timed env inflate pace now now (login_waiting cfg) rest" if "next_state h \<noteq> NS_Status"
    using drive_timed_step [OF raw(3) hello_runs(2)] raw(1,2) that assms(2)
    by (simp add: asks_for_login_def serverbound_ids w)
qed

subsection \<open>Properties\<close>

text \<open>
  C14: The loop with its clock behaves as the loop in which the timer may fire at any time, and it takes
  the arrivals that come in time and no others. Whenever a connection ends, at a time \<open>t\<close>, there is
  an \<open>n\<close> such that the first \<open>n\<close> arrivals each found it waiting for a frame whose deadline had not passed, and
  either the timer fired at \<open>t\<close>, which is exactly the deadline, before the next arrival (the horizon, if none),
  and \<open>run_bytes\<close> gives the same end and the same answers on those arrivals followed by silence; or the
  connection ended at or after the last of those arrivals, and \<open>run_bytes\<close> gives the same on just them. So
  everything shown of \<open>run_bytes\<close> for all events holds with the clock.
\<close>

theorem deadline_refines_run:
  assumes "run_timed env inflate unfinished pace horizon since c buf arrivals = Ended r t c'"
  shows "\<exists>n \<le> length arrivals. in_time env inflate unfinished pace since c buf arrivals n \<and>
    (timer_fires env inflate unfinished pace horizon since c buf arrivals n t c' \<and> r = Inl Timeout \<and>
       run_bytes env inflate unfinished c buf (map (\<lambda>a. untimed (snd a)) (take n arrivals) @ [Quiet]) = (Some r, c') \<or>
     0 < n \<and> fst (arrivals ! (n - 1)) \<le> t \<and>
       run_bytes env inflate unfinished c buf (map (\<lambda>a. untimed (snd a)) (take n arrivals)) = (Some r, c'))"
  using assms by (rule run_timed_ended)

lemma sample_waits: "codec_decode stored_inflate codec_new [5] = (Inr None, [5], 5)"
  by (simp add: codec_decode_def read_varint_slice_def slice_leb.simps MAX_VARINT_LEN_def PAYLOAD_MASK_def
      CONTINUATION_BIT_def usize_try_from_i32_def MAX_PACKET_SIZE_def MAX_SPECULATIVE_RESERVE_def)

lemma sample_timed:
  "run_timed ideal_env stored_inflate [] (\<lambda>_ _. Some 0) 100000000000 0 (connection_new server_config_default) []
     [(5, Data [0x05])] = Ended (Inl Timeout) 30000000000 (connection_new server_config_default)"
  using sample_waits
  by (simp add: drive_timed.simps connection_new_def server_config_default_def timeout_of_def)

theorem deadline_refines_run_witness:
  "\<exists>n \<le> 1. in_time ideal_env stored_inflate [] (\<lambda>_ _. Some 0) 0 (connection_new server_config_default) []
       [(5, Data [0x05])] n \<and>
     timer_fires ideal_env stored_inflate [] (\<lambda>_ _. Some 0) 100000000000 0 (connection_new server_config_default) []
       [(5, Data [0x05])] n 30000000000 (connection_new server_config_default) \<and>
     run_bytes ideal_env stored_inflate [] (connection_new server_config_default) []
       (map (\<lambda>a. untimed (snd a)) (take n [(5 :: nat, Data [0x05])]) @ [Quiet]) =
     (Some (Inl Timeout), connection_new server_config_default)"
proof -
  have "run_bytes ideal_env stored_inflate [] (connection_new server_config_default) [] [Chunk [5]] =
      (None, connection_new server_config_default)"
    using sample_waits by (simp add: drive.simps connection_new_def)
  then show ?thesis
    using deadline_refines_run [OF sample_timed] by (auto simp: le_Suc_eq)
qed

text \<open>
  C13: How long a connection can hold its permit. Let the transport accept every answer within \<open>D\<close>, and look
  at the connection at any time \<open>horizon\<close> after three read timeouts and three such answers. Whatever its
  peer has sent by then and when, if it never got to a login, it has ended, and did so within that bound;
  so what is still open is a login, and then the deadline of the frame it waits for lies at or after the
  horizon; no answer is stuck. Nothing is claimed of when a login ends: \<open>starts_keep_pending\<close> below shows
  that its peer can keep it open.
\<close>

theorem connection_lifetime:
  assumes "paced D pace" "3 * (timeout_of cfg + D) < horizon"
  shows "case run_timed env inflate unfinished pace horizon 0 (connection_new cfg) [] arrivals of
      Ended r t c \<Rightarrow> current (conn_state c) \<in> {Handshaking, Status} \<longrightarrow> t \<le> 3 * (timeout_of cfg + D)
    | Pending since c buf \<Rightarrow> current (conn_state c) \<notin> {Handshaking, Status} \<and> horizon \<le> since + timeout_of cfg
    | Blocked c \<Rightarrow> False"
proof -
  let ?run = "run_timed env inflate unfinished pace horizon 0 (connection_new cfg) [] arrivals"
  have new: "frames_left (conn_state (connection_new cfg)) = 3" "config (connection_new cfg) = cfg"
    by (simp_all add: frames_left_def connection_new_def state_new_def)
  note bound = run_timed_bound [OF assms(1), where env = env and inflate = inflate and unfinished = unfinished and
      horizon = horizon and since = 0 and c = "connection_new cfg" and buf = "[]" and arrivals = arrivals, unfolded new, simplified]
  show ?thesis
  proof (cases ?run)
    case (Pending since c buf)
    have "since + timeout_of cfg \<le> since + frames_left (conn_state c) * (timeout_of cfg + D)"
      by (rule one_frame) simp
    with bound Pending assms(2) show ?thesis by (auto simp: not_login_def)
  qed (use bound in \<open>simp_all add: not_login_def\<close>)
qed

theorem connection_lifetime_witness:
  "run_timed ideal_env stored_inflate [] (\<lambda>_ _. Some 0) 100000000000 0 (connection_new server_config_default) []
     [(5, Data [0x05])] = Ended (Inl Timeout) 30000000000 (connection_new server_config_default) \<and>
   30000000000 \<le> 3 * (timeout_of server_config_default + 0)"
proof -
  have paced: "paced 0 (\<lambda>_ _. Some 0)" by (simp add: paced_def)
  have late: "3 * (timeout_of server_config_default + 0) < 100000000000"
    by (simp add: timeout_of_def server_config_default_def)
  have "current (conn_state (connection_new server_config_default)) \<in> {Handshaking, Status} \<longrightarrow>
      30000000000 \<le> 3 * (timeout_of server_config_default + 0)"
    using connection_lifetime [OF paced late, where env = ideal_env and inflate = stored_inflate and unfinished = "[]"
        and arrivals = "[(5, Data [0x05])]"]
    by (simp only: sample_timed timed.case)
  moreover have "current (conn_state (connection_new server_config_default)) = Handshaking"
    by (simp add: connection_new_def state_new_def)
  ultimately show ?thesis using sample_timed by simp
qed

text \<open>
  C37: The timeout is for a frame, not for silence. A peer that sends the bytes of one unfinished frame in
  any number of pieces is dropped at the deadline of that frame, even if it was never silent for long.
  The connection is observed until after that deadline.
\<close>

theorem deadline_covers_frame:
  assumes "codec_decode inflate (codec c) (buf @ concat chunks) = (Inr None, rest, k)"
    and "since + timeout_of (config c) < horizon"
  shows "run_timed env inflate unfinished pace horizon since c buf (zip clock (map Data chunks)) =
    Ended (Inl Timeout) (since + timeout_of (config c)) c"
  using assms(1)
proof (induction chunks arbitrary: buf clock)
  case (Cons bs chunks)
  show ?case
  proof (cases clock)
    case us: (Cons u us)
    have "codec_decode inflate (codec c) (buf @ bs) = (Inr None, buf @ bs, snd (snd (codec_decode inflate (codec c) (buf @ bs))))"
    proof (rule ccontr)
      assume "\<not> ?thesis"
      then have "fst (codec_decode inflate (codec c) (buf @ bs)) \<noteq> Inr None"
        using codec_decode_wait [of inflate "codec c" "buf @ bs"] by (metis prod.collapse)
      then show False
        using codec_decode_extend [of inflate "codec c" "buf @ bs" _ _ _ "concat chunks"] Cons.prems
        by (metis append_assoc concat.simps(2) prod.collapse fst_conv)
    qed
    then have "drive_timed env inflate pace (max u since) since c (buf @ bs) = Pending since c (buf @ bs)"
      by (subst drive_timed.simps) (auto split: prod.splits)
    then show ?thesis
      using Cons.IH [of "buf @ bs" us] Cons.prems us by (simp add: Let_def)
  qed (simp add: assms(2))
qed (simp add: assms(2))

theorem deadline_covers_frame_witness:
  "run_timed ideal_env stored_inflate [] (\<lambda>_ _. Some 0) 100000000000 0 (connection_new server_config_default) []
     (zip [10000000000, 20000000000, 29000000000] (map Data [[0x05], [0x00], [0x01]])) =
   Ended (Inl Timeout) (0 + timeout_of server_config_default) (connection_new server_config_default)"
proof -
  have "codec_decode stored_inflate codec_new [5, 0, 1] = (Inr None, [5, 0, 1], 3)"
    by (simp add: codec_decode_def read_varint_slice_def slice_leb.simps MAX_VARINT_LEN_def PAYLOAD_MASK_def
        CONTINUATION_BIT_def usize_try_from_i32_def MAX_PACKET_SIZE_def MAX_SPECULATIVE_RESERVE_def)
  then have "codec_decode stored_inflate (codec (connection_new server_config_default))
      ([] @ concat [[0x05], [0x00], [0x01]]) = (Inr None, [5, 0, 1], 3)"
    by (simp add: connection_new_def)
  from deadline_covers_frame [OF this, of 0 100000000000 ideal_env "[]" _ "[10000000000, 20000000000, 29000000000]"]
  show ?thesis by (simp add: connection_new_def timeout_of_def server_config_default_def)
qed

text \<open>
  A login has no such bound. A login start that is accepted leaves the connection in \<open>Login\<close>, with an
  answer on the wire, and ready for the next one.
\<close>

lemma start_handled:
  assumes "env_ok env inflate" "validate_username (ls_name s) = Inr ()" "current (conn_state c) = Login"
    and "reads_as inflate (compression_threshold (codec c)) start LoginStart s"
  obtains raw k d bs where "\<And>rest. codec_decode inflate (codec c) (start @ rest) = (Inr (Some raw), rest, k)"
    "handle env raw c = (Inr Continue, d)" "wire d = wire c @ bs" "bs \<noteq> []" "conn_state d = conn_state c"
    "config d = config c"
    "compression_threshold (codec d) =
       (if cfg_compression_threshold (config c) = None then compression_threshold (codec c)
        else announced (config c))"
proof -
  obtain raw k where raw: "raw_id raw = ID LoginStart" "decode_as LoginStart raw = Inr s"
      "\<And>rest. codec_decode inflate (codec c) (start @ rest) = (Inr (Some raw), rest, k)"
    using assms(4) by (rule reads_frame) blast
  obtain d bs where d: "handle_login_start env raw c = (Inr Continue, d)" "wire d = wire c @ bs"
      "conn_state d = conn_state c" "config d = config c"
      "compression_threshold (codec d) =
         (if cfg_compression_threshold (config c) = None then compression_threshold (codec c)
          else announced (config c))"
      "login_reply inflate env (config c) (compression_threshold (codec c)) (ls_name s) bs"
    using login_start_delivers [OF assms(1) raw(2) assms(2), of c] by metis
  have "handle env raw c = (Inr Continue, d)"
    using d(1) assms(3) raw(1) by (simp add: handle_dispatch serverbound_ids)
  moreover have "bs \<noteq> []"
    using d(6) by (auto simp: login_reply_def split: option.splits dest: reads_as_not_empty)
  ultimately show thesis using that raw(3) d(2-5) by blast
qed

lemma starts_keep_pending:
  assumes "env_ok env inflate" "gap \<le> timeout_of cfg" "validate_username (ls_name s) = Inr ()"
    and "reads_as inflate th start LoginStart s" "th = announced cfg \<or> cfg_compression_threshold cfg = None"
  shows "current (conn_state c) = Login \<Longrightarrow> config c = cfg \<Longrightarrow> compression_threshold (codec c) = th \<Longrightarrow>
    horizon \<le> since + n * gap + timeout_of cfg \<Longrightarrow>
    \<exists>c'. run_timed env inflate unfinished (\<lambda>_ _. Some 0) horizon since c []
        (map (\<lambda>k. (since + Suc k * gap, Data start)) [0..<n]) = Pending (since + n * gap) c' [] \<and>
      current (conn_state c') = Login"
proof (induction n arbitrary: since c)
  case (Suc n)
  have "reads_as inflate (compression_threshold (codec c)) start LoginStart s" using Suc.prems assms(4) by simp
  then obtain raw k d where d: "\<And>rest. codec_decode inflate (codec c) (start @ rest) = (Inr (Some raw), rest, k)"
      "handle env raw c = (Inr Continue, d)" "conn_state d = conn_state c" "config d = config c"
      "compression_threshold (codec d) =
         (if cfg_compression_threshold (config c) = None then compression_threshold (codec c)
          else announced (config c))"
    by (rule start_handled [OF assms(1,3) Suc.prems(1)]) blast
  with drive_timed_step [OF d(1) [of "[]"]] have
    "drive_timed env inflate (\<lambda>_ _. Some 0) (since + gap) since c start = Pending (since + gap) d []"
    by (simp add: drive_timed_empty)
  moreover have "map (\<lambda>k. (since + Suc k * gap, Data start)) [0..<Suc n] =
      (since + gap, Data start) # map (\<lambda>k. (since + gap + Suc k * gap, Data start)) [0..<n]"
    by (simp add: upt_conv_Cons map_Suc_upt [symmetric] add.assoc comp_def del: upt_Suc)
  moreover have "compression_threshold (codec d) = th"
    using d(5) Suc.prems assms(5) by auto
  ultimately show ?case
    using Suc.IH [of d "since + gap"] Suc.prems d(3,4) assms(2) by (simp add: Let_def add.assoc del: upt_Suc)
qed (use assms in simp)

text \<open>The first login start of a connection, which comes before the switch to compression.\<close>

lemma first_start:
  assumes "env_ok env inflate" "reads_as inflate None start LoginStart s" "validate_username (ls_name s) = Inr ()"
  obtains raw k d where
    "\<And>rest. codec_decode inflate (codec (login_waiting cfg)) (start @ rest) = (Inr (Some raw), rest, k)"
    "handle env raw (login_waiting cfg) = (Inr Continue, d)" "wire d \<noteq> []" "current (conn_state d) = Login"
    "config d = cfg" "compression_threshold (codec d) = announced cfg"
proof -
  have "reads_as inflate (compression_threshold (codec (login_waiting cfg))) start LoginStart s"
    using assms(2) by simp
  then obtain raw k d bs where d:
      "\<And>rest. codec_decode inflate (codec (login_waiting cfg)) (start @ rest) = (Inr (Some raw), rest, k)"
      "handle env raw (login_waiting cfg) = (Inr Continue, d)" "wire d = wire (login_waiting cfg) @ bs" "bs \<noteq> []"
      "conn_state d = conn_state (login_waiting cfg)" "config d = config (login_waiting cfg)"
      "compression_threshold (codec d) =
         (if cfg_compression_threshold (config (login_waiting cfg)) = None
          then compression_threshold (codec (login_waiting cfg)) else announced (config (login_waiting cfg)))"
    by (rule start_handled [OF assms(1,3), rotated]) simp_all
  then show thesis by (intro that [OF d(1,2)]) (simp_all add: announced_def)
qed

text \<open>
  A client that repeats its login start in intervals of at most the read timeout stays in \<open>Login\<close>, and
  holds its permit, for as long as it likes: it is still waited for at every horizon up to a timeout
  after the last of them.
\<close>

lemma login_lifetime_unbounded:
  assumes "env_ok env inflate" "gap \<le> timeout_of cfg"
    and "reads_as inflate None hello Handshake h" "next_state h \<noteq> NS_Status"
    and "validate_username (ls_name s) = Inr ()"
    and "reads_as inflate None start LoginStart s" "reads_as inflate (announced cfg) again LoginStart s"
    and "horizon \<le> n * gap + timeout_of cfg"
  shows "\<exists>c. run_timed env inflate unfinished (\<lambda>_ _. Some 0) horizon 0 (connection_new cfg) []
      ((0, Data (hello @ start)) # map (\<lambda>k. (Suc k * gap, Data again)) [0..<n]) = Pending (n * gap) c [] \<and>
    current (conn_state c) = Login"
proof -
  let ?p = "\<lambda>_ _. Some 0" and ?w = "login_waiting cfg"
  obtain raw k d where d: "\<And>rest. codec_decode inflate (codec ?w) (start @ rest) = (Inr (Some raw), rest, k)"
      "handle env raw ?w = (Inr Continue, d)" "current (conn_state d) = Login" "config d = cfg"
      "compression_threshold (codec d) = announced cfg"
    by (rule first_start [OF assms(1,6,5), of cfg]) blast
  then have "drive_timed env inflate ?p 0 0 ?w start = Pending 0 d []"
    using drive_timed_step [OF d(1) [of "[]"] d(2)] by (simp add: drive_timed_empty)
  then have "drive_timed env inflate ?p 0 0 (connection_new cfg) (hello @ start) = Pending 0 d []"
    using drive_timed_hello(2) [OF assms(3) _ assms(4), of ?p env 0 0 cfg start] by simp
  then show ?thesis
    using starts_keep_pending [OF assms(1,2,5,7) _ d(3,4,5), of horizon 0 n unfinished] assms(8) by simp
qed

subsection \<open>A peer that does not read\<close>

text \<open>
  A transport whose buffers, on both sides, hold \<open>B\<close> bytes that the peer has not read, under a peer that
  reads nothing: what fits is taken at once, and what does not is never taken.
\<close>

definition unread :: "nat \<Rightarrow> pace" where
  "unread B w w' = (if length w' \<le> B then Some 0 else None)"

lemma unread_eqs [simp]:
  "length w' \<le> B \<Longrightarrow> unread B w w' = Some 0"
  "\<not> length w' \<le> B \<Longrightarrow> unread B w w' = None"
  by (simp_all add: unread_def)

lemma starts_fill_buffer:
  assumes "env_ok env inflate" "validate_username (ls_name s) = Inr ()"
    and "reads_as inflate th start LoginStart s" "th = announced cfg \<or> cfg_compression_threshold cfg = None"
  shows "current (conn_state c) = Login \<Longrightarrow> config c = cfg \<Longrightarrow> compression_threshold (codec c) = th \<Longrightarrow>
    length (wire c) \<le> B \<Longrightarrow> B < length (wire c) + n \<Longrightarrow>
    \<exists>c'. drive_timed env inflate (unread B) now since c (concat (replicate n start)) = Blocked c' \<and>
      current (conn_state c') = Login"
proof (induction n arbitrary: since now c)
  case (Suc n)
  have "reads_as inflate (compression_threshold (codec c)) start LoginStart s" using Suc.prems assms(3) by simp
  then obtain raw k d bs where d: "\<And>rest. codec_decode inflate (codec c) (start @ rest) = (Inr (Some raw), rest, k)"
      "handle env raw c = (Inr Continue, d)" "wire d = wire c @ bs" "bs \<noteq> []" "conn_state d = conn_state c"
      "config d = config c"
      "compression_threshold (codec d) =
         (if cfg_compression_threshold (config c) = None then compression_threshold (codec c)
          else announced (config c))"
    by (rule start_handled [OF assms(1,2) Suc.prems(1)]) blast
  note step = drive_timed_step [OF d(1) [of "concat (replicate n start)"] d(2), of "unread B" now since]
  show ?case
  proof (cases "length (wire d) \<le> B")
    case True
    have "B < length (wire d) + n" using Suc.prems(5) d(3,4) by (cases bs) simp_all
    moreover have "compression_threshold (codec d) = th" using d(7) Suc.prems assms(4) by auto
    ultimately show ?thesis
      using Suc.IH [of d] step True Suc.prems d(5,6) by simp
  next
    case False
    with step Suc.prems(1) show ?thesis by simp
  qed
qed simp

text \<open>
  C36: No timer runs while an answer is being sent, and a login can ask for any number of answers. However
  many bytes \<open>B\<close> the transport holds for a peer that does not read, a client that sends a handshake, a
  login start and \<open>B\<close> repetitions of it, and reads nothing, keeps its connection, in \<open>Login\<close>, and the permit
  that goes with it: sending never completes, and the read timeout does not end it, at any horizon and
  whatever else arrives. The condition is that the peer never reads; a transport that takes every answer
  is the case of the lifetimes above.
\<close>

theorem unread_answer_blocks:
  assumes "env_ok env inflate"
    and "reads_as inflate None hello Handshake h" "next_state h \<noteq> NS_Status"
    and "validate_username (ls_name s) = Inr ()"
    and "reads_as inflate None start LoginStart s" "reads_as inflate (announced cfg) again LoginStart s"
  shows "\<exists>c. current (conn_state c) = Login \<and>
    (\<forall>horizon arrivals. run_timed env inflate unfinished (unread B) horizon 0 (connection_new cfg) []
      ((0, Data (hello @ start @ concat (replicate B again))) # arrivals) = Blocked c)"
proof -
  let ?w = "login_waiting cfg" and ?more = "concat (replicate B again)"
  obtain raw k d where d: "\<And>rest. codec_decode inflate (codec ?w) (start @ rest) = (Inr (Some raw), rest, k)"
      "handle env raw ?w = (Inr Continue, d)" "wire d \<noteq> []" "current (conn_state d) = Login" "config d = cfg"
      "compression_threshold (codec d) = announced cfg"
    by (rule first_start [OF assms(1,5,4), of cfg]) blast
  have "\<exists>c. drive_timed env inflate (unread B) 0 0 ?w (start @ ?more) = Blocked c \<and> current (conn_state c) = Login"
  proof (cases "length (wire d) \<le> B")
    case True
    have "B < length (wire d) + B" using d(3) by simp
    then show ?thesis
      using drive_timed_step [OF d(1) [of ?more] d(2), of "unread B" 0 0] True
        starts_fill_buffer [OF assms(1,4,6) _ d(4,5,6) True, of B 0 0]
      by simp
  next
    case False
    then show ?thesis
      using drive_timed_step [OF d(1) [of ?more] d(2), of "unread B" 0 0] by simp
  qed
  then show ?thesis
    using drive_timed_hello(2) [OF assms(2) _ assms(3), of "unread B" env 0 0 cfg "start @ ?more"]
    by auto
qed

theorem unread_answer_blocks_witness:
  "\<exists>c. current (conn_state c) = Login \<and>
    (\<forall>horizon arrivals. run_timed ideal_env stored_inflate [] (unread 212992) horizon 0
      (connection_new server_config_default) []
      ((0, Data (sample_frame Handshake None (sample_hello NS_Login) @
          sample_frame LoginStart None \<lparr>ls_name = ascii ''Notch'', ls_uuid = 1\<rparr> @
          concat (replicate 212992 (sample_frame LoginStart (Some 256) \<lparr>ls_name = ascii ''Notch'', ls_uuid = 1\<rparr>)))) #
        arrivals) = Blocked c)"
  by (rule unread_answer_blocks [OF ideal_env_ok sample_hello_reads _ _ sample_start_reads])
     (simp_all add: server_config_default_def sample_hello_def sample_name_valid announced_def sample_start_reads)

end
