(* ===== verification/StatusParse.thy ===== *)
theory StatusParse
  imports StatusJson
begin

text \<open>
  The \<open>Deserialize\<close> derives of \<open>crates/protocol/src/text.rs\<close> and of the JSON structs of
  \<open>crates/protocol/src/packets/status.rs\<close>: from a JSON value to the struct, \<open>None\<close> for a value that is
  rejected. A struct is read from an object, whose unknown members are ignored and whose known members
  may appear once, or from an array that gives its fields in order; a missing field is an error unless
  it carries \<open>serde(default)\<close>. How \<open>serde_json\<close> parses text into a value, and its limit on nesting there,
  is not part of this.
\<close>

subsection \<open>Fields\<close>

text \<open>The fields of a struct, in the order of its declaration: present or missing.\<close>

definition struct_fields :: "string list \<Rightarrow> json \<Rightarrow> json option list option" where
  "struct_fields names j =
     (case j of
        JObject ms \<Rightarrow>
          if distinct (filter (\<lambda>k. k \<in> set (map ascii names)) (map fst ms))
          then Some (map (\<lambda>n. map_of ms (ascii n)) names) else None
      | JArray vs \<Rightarrow>
          if length vs \<le> length names
          then Some (map Some vs @ replicate (length names - length vs) None) else None
      | _ \<Rightarrow> None)"

fun required :: "(json \<Rightarrow> 'a option) \<Rightarrow> json option \<Rightarrow> 'a option" where
  "required de None = None"
| "required de (Some j) = de j"

fun defaulted :: "'a \<Rightarrow> (json \<Rightarrow> 'a option) \<Rightarrow> json option \<Rightarrow> 'a option" where
  "defaulted d de None = Some d"
| "defaulted d de (Some j) = de j"

fun de_string :: "json \<Rightarrow> rstring option" where
  "de_string (JString s) = Some s"
| "de_string _ = None"

fun de_bool :: "json \<Rightarrow> bool option" where
  "de_bool (JBool b) = Some b"
| "de_bool _ = None"

fun de_i32 :: "json \<Rightarrow> i32 option" where
  "de_i32 (JInt n) = (if - (2 ^ 31) \<le> n \<and> n < 2 ^ 31 then Some (of_int n) else None)"
| "de_i32 _ = None"

fun de_option :: "(json \<Rightarrow> 'a option) \<Rightarrow> json \<Rightarrow> 'a option option" where
  "de_option de JNull = Some None"
| "de_option de j = map_option Some (de j)"

fun de_vec :: "(json \<Rightarrow> 'a option) \<Rightarrow> json \<Rightarrow> 'a list option" where
  "de_vec de (JArray vs) = those (map de vs)"
| "de_vec de _ = None"

lemma de_vec_cong [fundef_cong]:
  assumes "j = k" "\<And>vs v. k = JArray vs \<Longrightarrow> v \<in> set vs \<Longrightarrow> f v = g v"
  shows "de_vec f j = de_vec g k"
  using assms by (cases k) (auto cong: map_cong)

lemma defaulted_cong [fundef_cong]:
  assumes "d = d'" "x = y" "\<And>j. y = Some j \<Longrightarrow> f j = g j"
  shows "defaulted d f x = defaulted d' g y"
  using assms by (cases y) auto

lemma struct_fields_size:
  assumes "struct_fields names j = Some fs" "Some v \<in> set fs"
  shows "size v < size j"
proof (cases j)
  case (JArray vs)
  with assms have "v \<in> set vs" by (auto simp: struct_fields_def split: if_splits)
  with JArray show ?thesis by (simp add: size_list_estimation less_Suc_eq_le size_list_estimation')
next
  case (JObject ms)
  with assms obtain k where "(k, v) \<in> set ms"
    by (auto simp: struct_fields_def split: if_splits dest!: map_of_SomeD [OF sym])
  then have "size v \<le> size_list (size_prod (\<lambda>_. 0) size) ms" by (intro size_list_estimation') auto
  with JObject show ?thesis by simp
qed (use assms in \<open>auto simp: struct_fields_def\<close>)

lemma struct_fields_element:
  assumes "struct_fields names j = Some fs" "Some (JArray vs) \<in> set fs" "v \<in> set vs"
  shows "size v < size j"
proof -
  have "size v \<le> size_list size vs" using assms(3) by (intro size_list_estimation') auto
  then have "size v < size (JArray vs)" by simp
  also have "\<dots> < size j" using struct_fields_size [OF assms(1,2)] .
  finally show ?thesis .
qed

subsection \<open>Structs\<close>

function text_of_json :: "json \<Rightarrow> text_component option" where
  "text_of_json j =
     (case struct_fields [''text'', ''color'', ''bold'', ''italic'', ''extra''] j of
        Some [t, c, b, i, ex] \<Rightarrow>
          (case (required de_string t, defaulted None (de_option de_string) c,
                 defaulted None (de_option de_bool) b, defaulted None (de_option de_bool) i,
                 defaulted [] (de_vec text_of_json) ex) of
             (Some t, Some c, Some b, Some i, Some ex) \<Rightarrow> Some (TextComponent t c b i ex)
           | _ \<Rightarrow> None)
      | _ \<Rightarrow> None)"
  by pat_completeness auto
termination
  by (relation "measure size") (auto dest: struct_fields_element)

declare text_of_json.simps [simp del]

definition version_of_json :: "json \<Rightarrow> version_info option" where
  "version_of_json j =
     (case struct_fields [''name'', ''protocol''] j of
        Some [n, p] \<Rightarrow>
          (case (required de_string n, required de_i32 p) of
             (Some n, Some p) \<Rightarrow> Some \<lparr>vi_name = n, vi_protocol = p\<rparr>
           | _ \<Rightarrow> None)
      | _ \<Rightarrow> None)"

definition sample_of_json :: "json \<Rightarrow> sample_player option" where
  "sample_of_json j =
     (case struct_fields [''name'', ''id''] j of
        Some [n, i] \<Rightarrow>
          (case (required de_string n, required de_string i) of
             (Some n, Some i) \<Rightarrow> Some \<lparr>sp_name = n, sp_id = i\<rparr>
           | _ \<Rightarrow> None)
      | _ \<Rightarrow> None)"

definition players_of_json :: "json \<Rightarrow> players_info option" where
  "players_of_json j =
     (case struct_fields [''max'', ''online'', ''sample''] j of
        Some [m, n, s] \<Rightarrow>
          (case (required de_i32 m, required de_i32 n, defaulted [] (de_vec sample_of_json) s) of
             (Some m, Some n, Some s) \<Rightarrow> Some \<lparr>pi_max = m, pi_online = n, pi_sample = s\<rparr>
           | _ \<Rightarrow> None)
      | _ \<Rightarrow> None)"

definition status_of_json :: "json \<Rightarrow> status_response_json option" where
  "status_of_json j =
     (case struct_fields [''version'', ''players'', ''description'', ''favicon'', ''enforcesSecureChat''] j of
        Some [v, p, d, f, e] \<Rightarrow>
          (case (required version_of_json v, required players_of_json p, required text_of_json d,
                 defaulted None (de_option de_string) f, required de_bool e) of
             (Some v, Some p, Some d, Some f, Some e) \<Rightarrow>
               Some \<lparr>sr_version = v, sr_players = p, sr_description = d, sr_favicon = f,
                     sr_enforces_secure_chat = e\<rparr>
           | _ \<Rightarrow> None)
      | _ \<Rightarrow> None)"

subsection \<open>Reading back what was written\<close>

lemma sint_i32_range [simp]: "- 2147483648 \<le> sint v" "sint v < 2147483648" for v :: i32
  using sint_ge [of v] sint_lt [of v] by simp_all

lemma those_map_Some: "(\<And>x. x \<in> set xs \<Longrightarrow> f (g x) = Some x) \<Longrightarrow> those (map f (map g xs)) = Some xs"
  by (induction xs) auto

lemma de_vec_map: "(\<And>x. x \<in> set xs \<Longrightarrow> f (g x) = Some x) \<Longrightarrow> de_vec f (JArray (map g xs)) = Some xs"
  using those_map_Some [of xs f g] by simp

lemma optional_round [simp]:
  "defaulted None (de_option de_string) (map_option JString v) = Some v"
  "defaulted None (de_option de_bool) (map_option JBool w) = Some w"
  by (cases v; simp) (cases w; simp)

lemma text_fields:
  "struct_fields [''text'', ''color'', ''bold'', ''italic'', ''extra''] (json_of_text t) =
     Some [Some (JString (tc_text t)), map_option JString (color t), map_option JBool (bold t),
           map_option JBool (italic t), if extra t = [] then None else Some (JArray (map json_of_text (extra t)))]"
proof -
  obtain ms where ms: "json_of_text t = JObject ms" by (cases t) simp
  have "distinct (map fst ms)"
    using ms by (cases t) (auto simp: optional_member_def json_member_names split: option.splits)
  with ms text_members [of t] show ?thesis by (simp add: struct_fields_def)
qed

lemma text_json_round: "text_of_json (json_of_text t) = Some t"
proof (induction t)
  case (TextComponent t c b i ex)
  have "those (map (text_of_json \<circ> json_of_text) ex) = Some ex"
    using those_map_Some [of ex text_of_json json_of_text] TextComponent by simp
  then show ?case by (simp add: text_of_json.simps text_fields del: json_of_text.simps)
qed

lemma sample_json_round: "sample_of_json (json_of_sample s) = Some s"
  by (simp add: sample_of_json_def json_of_sample_def struct_fields_def ascii_def)

lemma version_json_round: "version_of_json (json_of_version v) = Some v"
  by (simp add: version_of_json_def json_of_version_def struct_fields_def ascii_def)

lemma players_json_round: "players_of_json (json_of_players p) = Some p"
  using de_vec_map [of "pi_sample p" sample_of_json json_of_sample]
  by (simp add: players_of_json_def json_of_players_def struct_fields_def ascii_def sample_json_round)

text \<open>
  C28: The status document round trips: what the server serialises reads back as the same document, every
  number, optional member and nested text component included, even though unset members and empty
  lists of children are left out.
\<close>

theorem status_json_roundtrip: "status_of_json (json_of_status s) = Some s"
proof (cases "sr_favicon s")
  case None
  then show ?thesis
    by (simp add: status_of_json_def json_of_status_def struct_fields_def ascii_def optional_member_def
        version_json_round players_json_round text_json_round)
next
  case (Some f)
  then show ?thesis
    by (simp add: status_of_json_def json_of_status_def struct_fields_def ascii_def optional_member_def
        version_json_round players_json_round text_json_round)
qed

text \<open>
  What a reader of the document may rely on when it comes from elsewhere: members it does not know
  change nothing, a member given twice is an error, and so is a required one that is missing.
\<close>

lemma struct_fields_unknown:
  "k \<notin> set (map ascii names) \<Longrightarrow> struct_fields names (JObject (ms @ (k, v) # ms')) = struct_fields names (JObject (ms @ ms'))"
  by (auto simp: struct_fields_def map_of_append map_add_def split: option.splits)

theorem status_json_unknown_members:
  assumes "k \<notin> set (map ascii [''version'', ''players'', ''description'', ''favicon'', ''enforcesSecureChat''])"
  shows "status_of_json (JObject (ms @ (k, v) # ms')) = status_of_json (JObject (ms @ ms'))"
  unfolding status_of_json_def struct_fields_unknown [OF assms] ..

theorem status_json_unknown_members_witness:
  "status_of_json (JObject ([] @ (ascii ''previewsChat'', JBool True) # [])) = status_of_json (JObject ([] @ []))"
  by (rule status_json_unknown_members) (simp add: ascii_def)

end
