(* ===== verification/Display.thy ===== *)
theory Display
  imports ConnState
begin

text \<open>
  The messages of the errors: the \<open>Display\<close> implementations of \<open>State\<close> and \<open>Direction\<close>, the \<open>Debug\<close> names of
  \<open>TagId\<close>, and the \<open>#[error(..)]\<close> formats of \<open>NbtError\<close>, \<open>ProtocolError\<close> and \<open>NetError\<close>, as the server writes
  them to its log. \<open>{}\<close> of an integer is its decimal form and \<open>{:#04x}\<close> its hexadecimal form, of the two's
  complement for a signed one, padded to two digits. \<open>{:?}\<close> of a string quotes and escapes it; which
  characters that escapes beyond the control characters depends on Unicode tables, so it is the
  parameter \<open>debug_str\<close>.
\<close>

subsection \<open>Numbers\<close>

fun show_digit :: "nat \<Rightarrow> byte" where
  "show_digit d = (if d < 10 then 0x30 + of_nat d else 0x57 + of_nat d)"

text \<open>The digits of a number in a base.\<close>

function show_base :: "nat \<Rightarrow> nat \<Rightarrow> rstring" where
  "show_base b n = (if b < 2 \<or> n < b then [show_digit n] else show_base b (n div b) @ [show_digit (n mod b)])"
  by pat_completeness auto
termination
  by (relation "measure snd") auto

declare show_base.simps [simp del]

definition show_usize :: "usize \<Rightarrow> rstring" where
  "show_usize n = show_base 10 n"

definition show_i32 :: "i32 \<Rightarrow> rstring" where
  "show_i32 v = (if sint v < 0 then 0x2D # show_base 10 (nat (- sint v)) else show_base 10 (nat (sint v)))"

definition show_hex04 :: "nat \<Rightarrow> rstring" where
  "show_hex04 n =
     (let digits = show_base 16 n in ascii ''0x'' @ replicate (2 - length digits) 0x30 @ digits)"

subsection \<open>Names\<close>

fun state_display :: "state \<Rightarrow> rstring" where
  "state_display Handshaking = ascii ''handshaking''"
| "state_display Status = ascii ''status''"
| "state_display Login = ascii ''login''"
| "state_display Configuration = ascii ''configuration''"
| "state_display Play = ascii ''play''"

fun direction_display :: "direction \<Rightarrow> rstring" where
  "direction_display Serverbound = ascii ''serverbound''"
| "direction_display Clientbound = ascii ''clientbound''"

fun tag_id_debug :: "tag_id \<Rightarrow> rstring" where
  "tag_id_debug Id_End = ascii ''End''"
| "tag_id_debug Id_Byte = ascii ''Byte''"
| "tag_id_debug Id_Short = ascii ''Short''"
| "tag_id_debug Id_Int = ascii ''Int''"
| "tag_id_debug Id_Long = ascii ''Long''"
| "tag_id_debug Id_Float = ascii ''Float''"
| "tag_id_debug Id_Double = ascii ''Double''"
| "tag_id_debug Id_ByteArray = ascii ''ByteArray''"
| "tag_id_debug Id_String = ascii ''String''"
| "tag_id_debug Id_List = ascii ''List''"
| "tag_id_debug Id_Compound = ascii ''Compound''"
| "tag_id_debug Id_IntArray = ascii ''IntArray''"
| "tag_id_debug Id_LongArray = ascii ''LongArray''"

subsection \<open>Messages\<close>

fun nbt_error_display :: "(rstring \<Rightarrow> rstring) \<Rightarrow> nbt_error \<Rightarrow> rstring" where
  "nbt_error_display debug_str Nbt_UnexpectedEof = ascii ''unexpected end of input while decoding nbt''"
| "nbt_error_display debug_str (UnknownTag b) = ascii ''unknown nbt tag id '' @ show_usize (unat b)"
| "nbt_error_display debug_str (RootNotCompound i) = ascii ''nbt root must be a compound, found '' @ tag_id_debug i"
| "nbt_error_display debug_str (DepthExceeded m) =
     ascii ''nbt nesting exceeded the maximum depth of '' @ show_usize m"
| "nbt_error_display debug_str (Nbt_NegativeLength v) = ascii ''negative nbt length: '' @ show_i32 v"
| "nbt_error_display debug_str (LengthExceedsInput d r) =
     ascii ''nbt length declares '' @ show_usize d @ ascii '' bytes but only '' @ show_usize r @ ascii '' remain''"
| "nbt_error_display debug_str (InvalidListElementType i) = ascii ''invalid nbt list element type '' @ tag_id_debug i"
| "nbt_error_display debug_str (HeterogeneousList e f) =
     ascii ''heterogeneous nbt list: expected '' @ tag_id_debug e @ ascii '', found '' @ tag_id_debug f"
| "nbt_error_display debug_str (TooManyNodes m) =
     ascii ''nbt document exceeded the maximum of '' @ show_usize m @ ascii '' tags''"
| "nbt_error_display debug_str (DuplicateKey name) =
     ascii ''nbt compound contains a duplicate key: '' @ debug_str name"
| "nbt_error_display debug_str (Nbt_ArrayTooLong n) =
     ascii ''nbt array of '' @ show_usize n @ ascii '' elements exceeds the i32 length prefix''"
| "nbt_error_display debug_str (Nbt_StringTooLong n) =
     ascii ''nbt string of '' @ show_usize n @ ascii '' bytes exceeds the 65535 byte maximum''"
| "nbt_error_display debug_str (Nbt_InvalidUtf8 u) = ascii ''nbt string was not valid utf-8''"

fun protocol_error_display :: "(rstring \<Rightarrow> rstring) \<Rightarrow> protocol_error \<Rightarrow> rstring" where
  "protocol_error_display debug_str (VarIntTooLong m) =
     ascii ''varint exceeded its maximum encoded length of '' @ show_usize m @ ascii '' bytes''"
| "protocol_error_display debug_str UnexpectedEof = ascii ''unexpected end of buffer while decoding''"
| "protocol_error_display debug_str (NegativeLength v) = ascii ''negative length prefix: '' @ show_i32 v"
| "protocol_error_display debug_str (FrameTooLarge n m) =
     ascii ''frame length '' @ show_usize n @ ascii '' exceeds maximum '' @ show_usize m"
| "protocol_error_display debug_str (StringTooLong n m) =
     ascii ''string length '' @ show_usize n @ ascii '' bytes exceeds maximum '' @ show_usize m @ ascii '' bytes''"
| "protocol_error_display debug_str (ArrayTooLong n m) =
     ascii ''array length '' @ show_usize n @ ascii '' exceeds maximum '' @ show_usize m"
| "protocol_error_display debug_str (InvalidBoolean b) =
     ascii ''invalid boolean byte '' @ show_hex04 (unat b) @ ascii '', expected 0 or 1''"
| "protocol_error_display debug_str (CompressedSizeMismatch d n) =
     ascii ''compressed packet declared '' @ show_usize d @ ascii '' bytes but inflated to '' @ show_usize n"
| "protocol_error_display debug_str (Decompression m) = ascii ''decompression failed: '' @ m"
| "protocol_error_display debug_str (Nbt e) = ascii ''nbt error: '' @ nbt_error_display debug_str e"
| "protocol_error_display debug_str (CompressedBelowThreshold n t) =
     ascii ''compressed packet of '' @ show_usize n @ ascii '' bytes is below the '' @ show_i32 t @
     ascii '' byte threshold''"
| "protocol_error_display debug_str (InvalidUtf8 u) = ascii ''string field was not valid utf-8''"
| "protocol_error_display debug_str (InvalidNextState v) =
     ascii ''invalid next state value '' @ show_i32 v @ ascii '', expected 1 (status), 2 (login), or 3 (transfer)''"
| "protocol_error_display debug_str (Json m) = ascii ''json payload error: '' @ m"
| "protocol_error_display debug_str (Io m) = ascii ''i/o error: '' @ m"
| "protocol_error_display debug_str (TrailingBytes n) =
     ascii ''packet body had '' @ show_usize n @ ascii '' trailing bytes''"

fun net_error_display :: "(rstring \<Rightarrow> rstring) \<Rightarrow> net_error \<Rightarrow> rstring" where
  "net_error_display debug_str (Protocol e) = ascii ''protocol error: '' @ protocol_error_display debug_str e"
| "net_error_display debug_str (IllegalTransition a b) =
     ascii ''illegal state transition from '' @ state_display a @ ascii '' to '' @ state_display b"
| "net_error_display debug_str (UnexpectedPacket s i) =
     ascii ''unexpected packet id '' @ show_hex04 (unat i) @ ascii '' in state '' @ state_display s"
| "net_error_display debug_str DuplicateStatusRequest = ascii ''duplicate status request''"
| "net_error_display debug_str (InvalidUsername name) = ascii ''invalid username '' @ debug_str name"
| "net_error_display debug_str Timeout = ascii ''connection timed out waiting for a packet''"

text \<open>The names tell the states and the tags apart.\<close>

lemma state_display_inject: "state_display a = state_display b \<longleftrightarrow> a = b"
proof -
  have "\<forall>a b. state_display a = state_display b \<longrightarrow> a = b" by code_simp
  then show ?thesis by blast
qed

lemma tag_id_debug_inject: "tag_id_debug a = tag_id_debug b \<longleftrightarrow> a = b"
proof -
  have "\<forall>a b. tag_id_debug a = tag_id_debug b \<longrightarrow> a = b" by code_simp
  then show ?thesis by blast
qed

subsection \<open>Numbers read back\<close>

definition digit_value :: "byte \<Rightarrow> nat" where
  "digit_value c = (if c < 0x3A then unat c - 0x30 else unat c - 0x57)"

lemma digit_value_show: "d < 16 \<Longrightarrow> digit_value (show_digit d) = d"
  by (auto simp: digit_value_def word_less_nat_alt unat_of_nat unat_word_ariths)

lemma show_base_value:
  assumes "2 \<le> b" "b \<le> 16"
  shows "foldl (\<lambda>v c. v * b + digit_value c) 0 (show_base b n) = n"
proof (induction n rule: less_induct)
  case (less n)
  show ?case
  proof (cases "n < b")
    case True
    with assms show ?thesis by (simp add: show_base.simps [of b n] digit_value_show del: show_digit.simps)
  next
    case False
    then have "n div b < n" using assms by (intro div_less_dividend) auto
    moreover have "n mod b < 16" using assms mod_less_divisor [of b n] by linarith
    ultimately show ?thesis
      using less.IH [of "n div b"] False assms
      by (simp add: show_base.simps [of b n] digit_value_show del: show_digit.simps)
  qed
qed

subsection \<open>Clean lines\<close>

text \<open>No control characters, so no line breaks and no terminal escapes.\<close>

definition clean :: "rstring \<Rightarrow> bool" where
  "clean s \<longleftrightarrow> list_all (\<lambda>b. 0x20 \<le> b \<and> b \<noteq> 0x7F) s"

lemma clean_simps [simp]:
  "clean []" "clean (s @ t) \<longleftrightarrow> clean s \<and> clean t"
  "clean (b # s) \<longleftrightarrow> 0x20 \<le> b \<and> b \<noteq> 0x7F \<and> clean s"
  by (simp_all add: clean_def)

lemma clean_replicate: "clean (replicate n 0x30)"
  by (induction n) simp_all

lemma clean_show_digit: "d < 16 \<Longrightarrow> 0x20 \<le> show_digit d \<and> show_digit d \<noteq> 0x7F"
  by (auto simp: word_le_nat_alt unat_of_nat unat_word_ariths word_unat_eq_iff)

lemma clean_show_base:
  assumes "2 \<le> b" "b \<le> 16"
  shows "clean (show_base b n)"
proof (induction n rule: less_induct)
  case (less n)
  show ?case
  proof (cases "n < b")
    case True
    with assms clean_show_digit [of n] show ?thesis by (simp add: show_base.simps [of b n] del: show_digit.simps)
  next
    case False
    then have "n div b < n" using assms by (intro div_less_dividend) auto
    moreover have "n mod b < 16" using assms mod_less_divisor [of b n] by linarith
    ultimately show ?thesis
      using less.IH [of "n div b"] False assms clean_show_digit [of "n mod b"]
      by (simp add: show_base.simps [of b n] del: show_digit.simps)
  qed
qed

lemma clean_numbers [simp]: "clean (show_usize n)" "clean (show_i32 v)" "clean (show_hex04 m)"
  by (simp_all add: show_usize_def show_i32_def show_hex04_def Let_def clean_show_base clean_replicate ascii_def)

lemma clean_state [simp]: "clean (state_display s)"
  by (cases s) (simp_all add: ascii_def)

lemma clean_direction [simp]: "clean (direction_display d)"
  by (cases d) (simp_all add: ascii_def)

lemma clean_tag_id [simp]: "clean (tag_id_debug i)"
  by (cases i) (simp_all add: ascii_def)

text \<open>The texts in an error that come from a library: of the decompressor, of \<open>serde_json\<close>, of the transport.\<close>

fun library_texts :: "net_error \<Rightarrow> rstring list" where
  "library_texts (Protocol (Decompression m)) = [m]"
| "library_texts (Protocol (Json m)) = [m]"
| "library_texts (Protocol (Io m)) = [m]"
| "library_texts _ = []"

lemma clean_nbt_error:
  assumes "\<And>s. clean (debug_str s)"
  shows "clean (nbt_error_display debug_str e)"
  using assms by (cases e) (simp_all, simp_all add: ascii_def)

lemma clean_protocol_error:
  assumes "\<And>s. clean (debug_str s)" "list_all clean (library_texts (Protocol e))"
  shows "clean (protocol_error_display debug_str e)"
  using assms clean_nbt_error [of debug_str] by (cases e) (simp_all, simp_all add: ascii_def)

text \<open>
  The message of an error contains no control character, so long as the texts of the libraries and the
  escaped form of a string contain none: every name a peer chose appears in it in escaped form only.
\<close>

lemma net_error_clean:
  assumes "\<And>s. clean (debug_str s)" "list_all clean (library_texts e)"
  shows "clean (net_error_display debug_str e)"
proof (cases e)
  case (Protocol p)
  with assms clean_protocol_error [of debug_str p] show ?thesis by (simp, simp add: ascii_def)
qed (use assms in \<open>(simp_all, simp_all add: ascii_def)\<close>)

text \<open>Escaping for ASCII: a quoted string in which every byte outside the printable range is replaced.\<close>

definition plain_debug :: "rstring \<Rightarrow> rstring" where
  "plain_debug s = 0x22 # map (\<lambda>b. if 0x20 \<le> b \<and> b < 0x7F then b else 0x3F) s @ [0x22]"

lemma clean_plain_debug: "clean (plain_debug s)"
  by (auto simp: plain_debug_def clean_def list_all_iff)

text \<open>
  The numbers in a message are the numbers in the error: reading the digits back gives the number, in
  both bases, and a negative number is the one with the sign.
\<close>

theorem numbers_display:
  "foldl (\<lambda>v c. v * 10 + digit_value c) 0 (show_usize n) = n \<and>
   (if sint v < 0
    then \<exists>ds. show_i32 v = 0x2D # ds \<and> - int (foldl (\<lambda>v c. v * 10 + digit_value c) 0 ds) = sint v
    else int (foldl (\<lambda>v c. v * 10 + digit_value c) 0 (show_i32 v)) = sint v) \<and>
   (\<exists>ds. show_hex04 m = ascii ''0x'' @ ds \<and> 2 \<le> length ds \<and> foldl (\<lambda>v c. v * 16 + digit_value c) 0 ds = m)"
proof -
  have zeros: "foldl (\<lambda>v c. v * 16 + digit_value c) 0 (replicate k 0x30 @ ds) =
      foldl (\<lambda>v c. v * 16 + digit_value c) 0 ds" for k ds
    by (induction k) (simp_all add: digit_value_def)
  have "\<exists>ds. show_hex04 m = ascii ''0x'' @ ds \<and> 2 \<le> length ds \<and> foldl (\<lambda>v c. v * 16 + digit_value c) 0 ds = m"
    unfolding show_hex04_def Let_def using show_base_value [of 16 m] zeros
    by (intro exI [of _ "replicate (2 - length (show_base 16 m)) 0x30 @ show_base 16 m"]) simp
  then show ?thesis
    using show_base_value [of 10] by (simp add: show_usize_def show_i32_def)
qed

end
