(* ===== verification/Logging.thy ===== *)
theory Logging
  imports Display Dialogue
begin

text \<open>
  What the server says of a connection in its log: the \<open>debug!\<close> lines of \<open>Connection::run\<close> and the handlers of
  \<open>crates/net/src/connection.rs\<close>, and the line \<open>run_connection\<close> of \<open>server.rs\<close> writes when a connection ends with an
  error. A line is its level, its message and its fields, each with the text handed to \<open>tracing\<close>: \<open>%x\<close> hands
  over the \<open>Display\<close> form of \<open>x\<close>, which for a string is the string itself, \<open>?x\<close> the \<open>Debug\<close> form. What the
  subscriber does with a field after that, and whether its filter lets the level through, is not modelled.
\<close>

subsection \<open>Lines\<close>

record log_line =
  line_level :: log_level
  line_message :: string
  line_fields :: "(string \<times> rstring) list"

fun next_state_debug :: "next_state \<Rightarrow> rstring" where
  "next_state_debug NS_Status = ascii ''Status''"
| "next_state_debug NS_Login = ascii ''Login''"
| "next_state_debug NS_Transfer = ascii ''Transfer''"

definition debug_line :: "string \<Rightarrow> (string \<times> rstring) list \<Rightarrow> log_line" where
  "debug_line m fs = \<lparr>line_level = Log_Debug, line_message = m, line_fields = fs\<rparr>"

definition handshake_lines :: "raw_packet \<Rightarrow> log_line list" where
  "handshake_lines frame =
     (case decode_as Handshake frame of
        Inl _ \<Rightarrow> []
      | Inr h \<Rightarrow>
          [debug_line ''handshake received''
             [(''protocol_version'', show_i32 (protocol_version h)),
              (''address'', server_address h),
              (''next_state'', next_state_debug (next_state h))]])"

text \<open>
  A login start is logged as rejected before the answer is sent, and as succeeded after everything was.
\<close>

definition login_start_lines :: "environment \<Rightarrow> raw_packet \<Rightarrow> connection \<Rightarrow> log_line list" where
  "login_start_lines env frame c =
     (case decode_as LoginStart frame of
        Inl _ \<Rightarrow> []
      | Inr start \<Rightarrow>
          (case validate_username (ls_name start) of
             Inl _ \<Rightarrow> [debug_line ''rejecting invalid username'' [(''name'', ls_name start)]]
           | Inr _ \<Rightarrow>
               (case handle_login_start env frame c of
                  (Inl _, _) \<Rightarrow> []
                | (Inr _, _) \<Rightarrow>
                    [debug_line ''login succeeded''
                       [(''name'', ls_name start),
                        (''uuid'', show_usize (unat (offline_uuid (env_md5 env) (ls_name start))))]])))"

definition login_acknowledged_lines :: "connection \<Rightarrow> log_line list" where
  "login_acknowledged_lines c =
     (case handle_login_acknowledged c of
        (Inl _, _) \<Rightarrow> []
      | (Inr _, _) \<Rightarrow> [debug_line ''entering configuration'' []])"

definition handle_lines :: "environment \<Rightarrow> raw_packet \<Rightarrow> connection \<Rightarrow> log_line list" where
  "handle_lines env frame c =
     (let s = current (conn_state c); i = raw_id frame in
       if s = Handshaking \<and> i = ID Handshake then handshake_lines frame
       else if s = Login \<and> i = ID LoginStart then login_start_lines env frame c
       else if s = Login \<and> i = ID LoginAcknowledged then login_acknowledged_lines c
       else [])"

subsection \<open>The log of a connection\<close>

function drive_lines :: "environment \<Rightarrow> inflater \<Rightarrow> connection \<Rightarrow> byte list \<Rightarrow> log_line list" where
  "drive_lines env inflate c buf =
     (case codec_decode inflate (codec c) buf of
        (Inr (Some frame), rest, _) \<Rightarrow>
          handle_lines env frame c @
          (case handle env frame c of
             (Inr Continue, c) \<Rightarrow> drive_lines env inflate c rest
           | _ \<Rightarrow> [])
      | _ \<Rightarrow> [])"
  by pat_completeness auto
termination
  by (relation "measure (\<lambda>(_, _, _, buf). length buf)") (auto dest: codec_decode_progress [OF sym])

declare drive_lines.simps [simp del]

fun run_lines :: "environment \<Rightarrow> inflater \<Rightarrow> connection \<Rightarrow> byte list \<Rightarrow> stream_event list \<Rightarrow> log_line list" where
  "run_lines env inflate c buf [] = []"
| "run_lines env inflate c buf (Chunk bs # events) =
     drive_lines env inflate c (buf @ bs) @
     (case drive env inflate c (buf @ bs) of
        (Some _, _, _) \<Rightarrow> []
      | (None, c, rest) \<Rightarrow> run_lines env inflate c rest events)"
| "run_lines env inflate c buf (Eof # _) = (if buf = [] then [debug_line ''peer closed the connection'' []] else [])"
| "run_lines env inflate c buf (ReadError e # _) = []"
| "run_lines env inflate c buf (Quiet # _) = []"

text \<open>The line of \<open>run_connection\<close>.\<close>

definition end_lines :: "(rstring \<Rightarrow> rstring) \<Rightarrow> net_error + unit \<Rightarrow> log_line list" where
  "end_lines debug_str r =
     (case r of
        Inr _ \<Rightarrow> []
      | Inl error \<Rightarrow>
          if is_transport_noise error
          then [debug_line ''connection closed'' [(''error'', net_error_display debug_str error)]]
          else [\<lparr>line_level = Log_Warn, line_message = ''connection closed with an error'',
                 line_fields = [(''error'', net_error_display debug_str error)]\<rparr>])"

definition connection_lines :: "(rstring \<Rightarrow> rstring) \<Rightarrow> environment \<Rightarrow> inflater \<Rightarrow> io_error \<Rightarrow> server_config \<Rightarrow>
    stream_event list \<Rightarrow> log_line list" where
  "connection_lines debug_str env inflate unfinished cfg events =
     run_lines env inflate (connection_new cfg) [] events @
     (case fst (run_bytes env inflate unfinished (connection_new cfg) [] events) of
        None \<Rightarrow> []
      | Some r \<Rightarrow> end_lines debug_str r)"

text \<open>The level is the one the accept loop's model records for the connection.\<close>

lemma end_lines_level: "map line_level (end_lines debug_str r) = (case run_connection_log r of None \<Rightarrow> [] | Some l \<Rightarrow> [l])"
  by (auto simp: end_lines_def run_connection_log_def debug_line_def split: sum.splits)

subsection \<open>What the lines can contain\<close>

text \<open>The two fields that hold text of the peer as it came.\<close>

definition verbatim :: "log_line \<Rightarrow> string \<Rightarrow> bool" where
  "verbatim line field \<longleftrightarrow> line_level line = Log_Debug \<and>
     (line_message line, field) \<in>
       {(''handshake received'', ''address''), (''rejecting invalid username'', ''name'')}"

definition line_clean :: "log_line \<Rightarrow> bool" where
  "line_clean line \<longleftrightarrow> list_all (\<lambda>(field, v). clean v \<or> verbatim line field) (line_fields line)"

lemma clean_next_state [simp]: "clean (next_state_debug s)"
  by (cases s) (simp_all add: ascii_def)

lemma clean_valid_name:
  assumes "decode_as LoginStart frame = Inr start" "validate_username (ls_name start) = Inr ()"
  shows "clean (ls_name start)"
proof -
  have "utf8_valid (ls_name start)" using decoded_start_ok [OF assms(1)] by (simp add: string_ok_def)
  with validate_username_spec [of "ls_name start"] assms(2) have "list_all name_byte (ls_name start)"
    by (simp split: if_splits)
  moreover have "0x20 \<le> b \<and> b \<noteq> 0x7F" if "name_byte b" for b
    using that by (auto simp: name_byte_def is_ascii_alphanumeric_def word_le_nat_alt)
  ultimately show ?thesis unfolding clean_def list_all_iff by blast
qed

lemma handle_lines_clean: "list_all line_clean (handle_lines env frame c)"
  by (auto simp: handle_lines_def Let_def handshake_lines_def login_start_lines_def login_acknowledged_lines_def
      line_clean_def verbatim_def debug_line_def clean_valid_name split: sum.splits prod.splits)

lemma drive_lines_clean: "list_all line_clean (drive_lines env inflate c buf)"
proof (induction env inflate c buf rule: drive_lines.induct)
  case (1 env inflate c buf)
  then show ?case
    by (subst drive_lines.simps) (auto simp: handle_lines_clean split: prod.splits sum.splits option.splits flow.splits)
qed

lemma line_clean_no_fields [simp]: "line_clean (debug_line m [])"
  by (simp add: line_clean_def debug_line_def)

lemma run_lines_clean: "list_all line_clean (run_lines env inflate c buf events)"
  by (induction env inflate c buf events rule: run_lines.induct)
     (auto simp: drive_lines_clean split: prod.splits option.splits)

lemma end_lines_clean:
  assumes "\<And>s. clean (debug_str s)" "\<And>e. r = Inl e \<Longrightarrow> list_all clean (library_texts e)"
  shows "list_all line_clean (end_lines debug_str r)"
  using assms net_error_clean [of debug_str] by (auto simp: end_lines_def line_clean_def debug_line_def split: sum.splits)

subsection \<open>What they do contain\<close>

lemma drive_lines_step:
  assumes "codec_decode inflate (codec c) buf = (Inr (Some frame), rest, k)"
  shows "set (handle_lines env frame c) \<subseteq> set (drive_lines env inflate c buf)"
    and "handle env frame c = (Inr Continue, c') \<Longrightarrow>
      set (drive_lines env inflate c' rest) \<subseteq> set (drive_lines env inflate c buf)"
  using assms by (auto simp: drive_lines.simps [of env inflate c buf])

lemma hello_logged:
  assumes "reads_as inflate None hello Handshake h"
  shows "\<exists>line \<in> set (drive_lines env inflate (connection_new cfg) (hello @ rest)).
    line_message line = ''handshake received'' \<and> (''address'', server_address h) \<in> set (line_fields line)"
proof -
  have "reads_as inflate (compression_threshold (codec (connection_new cfg))) hello Handshake h"
    using assms by (simp add: connection_new_def codec_new_def)
  then obtain raw k where raw: "codec_decode inflate (codec (connection_new cfg)) (hello @ rest) = (Inr (Some raw), rest, k)"
      "raw_id raw = ID Handshake" "decode_as Handshake raw = Inr h"
    unfolding reads_as_def by blast
  then have "debug_line ''handshake received''
      [(''protocol_version'', show_i32 (protocol_version h)), (''address'', server_address h),
       (''next_state'', next_state_debug (next_state h))] \<in> set (handle_lines env raw (connection_new cfg))"
    by (simp add: handle_lines_def handshake_lines_def connection_new_def state_new_def)
  then show ?thesis
    using drive_lines_step(1) [OF raw(1), of env] by (intro bexI) (auto simp: debug_line_def)
qed

lemma name_logged:
  assumes "reads_as inflate None hello Handshake h" "next_state h \<noteq> NS_Status"
    and "reads_as inflate None start LoginStart s" "validate_username (ls_name s) \<noteq> Inr ()"
  shows "\<exists>line \<in> set (drive_lines env inflate (connection_new cfg) (hello @ start)).
    line_message line = ''rejecting invalid username'' \<and> (''name'', ls_name s) \<in> set (line_fields line)"
proof -
  let ?w = "login_waiting cfg"
  have "reads_as inflate (compression_threshold (codec (connection_new cfg))) hello Handshake h"
    using assms(1) by (simp add: connection_new_def codec_new_def)
  then obtain raw k where raw: "codec_decode inflate (codec (connection_new cfg)) (hello @ start) = (Inr (Some raw), start, k)"
      "raw_id raw = ID Handshake" "decode_as Handshake raw = Inr h"
    unfolding reads_as_def by blast
  have moved: "handle env raw (connection_new cfg) = (Inr Continue, ?w)"
    using raw(2,3) assms(2) by (intro hello_runs(2)) (simp add: asks_for_login_def serverbound_ids)
  have "reads_as inflate (compression_threshold (codec ?w)) start LoginStart s" using assms(3) by simp
  then have "\<exists>raw k. codec_decode inflate (codec ?w) (start @ []) = (Inr (Some raw), [], k) \<and>
      raw_id raw = ID LoginStart \<and> decode_as LoginStart raw = Inr s"
    unfolding reads_as_def by blast
  then obtain frame j where frame: "codec_decode inflate (codec ?w) start = (Inr (Some frame), [], j)"
      "raw_id frame = ID LoginStart" "decode_as LoginStart frame = Inr s"
    by auto
  then have "debug_line ''rejecting invalid username'' [(''name'', ls_name s)] \<in> set (handle_lines env frame ?w)"
    using assms(4) by (cases "validate_username (ls_name s)") (simp_all add: handle_lines_def login_start_lines_def)
  then show ?thesis
    using drive_lines_step(1) [OF frame(1), of env] drive_lines_step(2) [OF raw(1) moved]
    by (intro bexI) (auto simp: debug_line_def)
qed

subsection \<open>Properties\<close>

text \<open>
  C29: Where a peer's text reaches the log. Whatever a peer sends, every field of every line about its
  connection is free of control characters, given that the escaped form of a string is and that the
  texts of the libraries in the final error are, except for two: the \<open>address\<close> of a handshake and the
  \<open>name\<close> of a refused login start, both in lines of level debug. In particular every line of level warn is
  clean. The exceptions are real: any address a handshake can carry, and any refused name a login start
  can carry, line breaks included, is handed to the logger as it came.
\<close>

theorem log_lines_clean:
  assumes "\<And>s. clean (debug_str s)"
    and "\<And>e c. run_bytes env inflate unfinished (connection_new cfg) [] events = (Some (Inl e), c) \<Longrightarrow>
      list_all clean (library_texts e)"
    and "reads_as inflate None hello Handshake h" "next_state h \<noteq> NS_Status"
    and "reads_as inflate None start LoginStart s" "validate_username (ls_name s) \<noteq> Inr ()"
  shows "list_all (\<lambda>line. list_all (\<lambda>(field, v). clean v \<or> line_level line = Log_Debug \<and>
        (line_message line, field) \<in>
          {(''handshake received'', ''address''), (''rejecting invalid username'', ''name'')}) (line_fields line))
      (connection_lines debug_str env inflate unfinished cfg events) \<and>
    (\<exists>line \<in> set (connection_lines debug_str env inflate unfinished cfg [Chunk (hello @ start)]).
       line_message line = ''handshake received'' \<and> (''address'', server_address h) \<in> set (line_fields line)) \<and>
    (\<exists>line \<in> set (connection_lines debug_str env inflate unfinished cfg [Chunk (hello @ start)]).
       line_message line = ''rejecting invalid username'' \<and> (''name'', ls_name s) \<in> set (line_fields line))"
proof (intro conjI)
  have "list_all line_clean (connection_lines debug_str env inflate unfinished cfg events)"
  proof (cases "run_bytes env inflate unfinished (connection_new cfg) [] events")
    case (Pair r c)
    then show ?thesis
      using assms(2) [of _ c] end_lines_clean [OF assms(1)]
      by (auto simp: connection_lines_def run_lines_clean split: option.splits)
  qed
  then show "list_all (\<lambda>line. list_all (\<lambda>(field, v). clean v \<or> line_level line = Log_Debug \<and>
        (line_message line, field) \<in>
          {(''handshake received'', ''address''), (''rejecting invalid username'', ''name'')}) (line_fields line))
      (connection_lines debug_str env inflate unfinished cfg events)"
    by (simp only: line_clean_def [abs_def] verbatim_def)
  have sub: "set (drive_lines env inflate (connection_new cfg) (hello @ start)) \<subseteq>
      set (connection_lines debug_str env inflate unfinished cfg [Chunk (hello @ start)])"
    by (auto simp: connection_lines_def)
  show "\<exists>line \<in> set (connection_lines debug_str env inflate unfinished cfg [Chunk (hello @ start)]).
      line_message line = ''handshake received'' \<and> (''address'', server_address h) \<in> set (line_fields line)"
    using hello_logged [OF assms(3), of env cfg start] sub by blast
  show "\<exists>line \<in> set (connection_lines debug_str env inflate unfinished cfg [Chunk (hello @ start)]).
      line_message line = ''rejecting invalid username'' \<and> (''name'', ls_name s) \<in> set (line_fields line)"
    using name_logged [OF assms(3-6), of env cfg] sub by blast
qed

text \<open>A handshake and a login start with a line break in the text.\<close>

definition sample_forged_hello :: handshake where
  "sample_forged_hello =
     \<lparr>protocol_version = 776, server_address = [0x0A, 0x41], server_port = 25565, next_state = NS_Login\<rparr>"

definition sample_forged_start :: login_start where
  "sample_forged_start = \<lparr>ls_name = [0x0A, 0x41], ls_uuid = 1\<rparr>"

lemma sample_forged_reads:
  "reads_as stored_inflate None (sample_frame Handshake None sample_forged_hello) Handshake sample_forged_hello"
  "reads_as stored_inflate None (sample_frame LoginStart None sample_forged_start) LoginStart sample_forged_start"
proof -
  have valid: "utf8_valid [0x0A, 0x41]" by (rule ascii_utf8_valid) simp
  show "reads_as stored_inflate None (sample_frame Handshake None sample_forged_hello) Handshake sample_forged_hello"
    by (rule sample_frame_reads [OF Handshake.packet_impl_axioms])
       (use varint_len_le [of 0] varint_len_le [of 776] varint_len_le [of "i32_of_usize (Suc (Suc 0))"]
          varint_len_le [of "next_state_code NS_Login"] valid in
          \<open>simp_all add: sample_forged_hello_def handshake_ok_def string_ok_def Handshake_def write_string_def
            write_u16_def MAX_SERVER_ADDRESS_CHARS_def MAX_BYTES_PER_CHAR_def del: varint_len_bounds\<close>)
  have ok: "login_start_ok sample_forged_start"
    using valid by (simp add: sample_forged_start_def login_start_ok_def string_ok_def MAX_USERNAME_CHARS_def
        MAX_BYTES_PER_CHAR_def)
  show "reads_as stored_inflate None (sample_frame LoginStart None sample_forged_start) LoginStart sample_forged_start"
    by (rule sample_frame_reads [OF LoginStart.packet_impl_axioms ok login_start_small [OF ok]])
qed

theorem log_lines_clean_witness:
  "connection_lines plain_debug ideal_env stored_inflate [] server_config_default [Quiet] =
     [debug_line ''connection closed'' [(''error'', ascii ''connection timed out waiting for a packet'')]] \<and>
   clean (ascii ''connection timed out waiting for a packet'') \<and>
   (\<exists>line \<in> set (connection_lines plain_debug ideal_env stored_inflate [] server_config_default
        [Chunk (sample_frame Handshake None sample_forged_hello @ sample_frame LoginStart None sample_forged_start)]).
      line_message line = ''handshake received'' \<and> (''address'', [0x0A, 0x41]) \<in> set (line_fields line)) \<and>
   (\<exists>line \<in> set (connection_lines plain_debug ideal_env stored_inflate [] server_config_default
        [Chunk (sample_frame Handshake None sample_forged_hello @ sample_frame LoginStart None sample_forged_start)]).
      line_message line = ''rejecting invalid username'' \<and> (''name'', [0x0A, 0x41]) \<in> set (line_fields line))"
proof -
  have lines: "connection_lines plain_debug ideal_env stored_inflate [] server_config_default [Quiet] =
      [debug_line ''connection closed'' [(''error'', ascii ''connection timed out waiting for a packet'')]]"
    by (simp add: connection_lines_def end_lines_def)
  have texts: "list_all clean (library_texts e)"
    if "run_bytes ideal_env stored_inflate [] (connection_new server_config_default) [] [Quiet] = (Some (Inl e), c)" for e c
    using that by auto
  have login: "next_state sample_forged_hello \<noteq> NS_Status" by (simp add: sample_forged_hello_def)
  have invalid: "validate_username (ls_name sample_forged_start) \<noteq> Inr ()"
    by (simp add: sample_forged_start_def validate_username_def is_ascii_alphanumeric_def utf8_char_width_def)
  note logged = log_lines_clean [where debug_str = plain_debug and env = ideal_env and unfinished = "[]" and
      cfg = server_config_default and events = "[Quiet]", OF clean_plain_debug texts sample_forged_reads(1) login
      sample_forged_reads(2) invalid]
  from logged show ?thesis
    unfolding lines by (simp add: sample_forged_hello_def sample_forged_start_def debug_line_def)
qed

end
