(* ===== verification/PacketTypes.thy ===== *)
theory PacketTypes
  imports Packets
begin

text \<open>
  What the decoders of \<open>crates/protocol/src/buf.rs\<close> and \<open>crates/protocol/src/packets\<close> can yield: for every
  packet, whatever the bytes, a decoded value is one the wire can carry, with valid UTF-8 in its strings,
  each within the limit of its field, and lists within theirs.
\<close>

definition yields :: "'a preader \<Rightarrow> ('a \<Rightarrow> bool) \<Rightarrow> bool" where
  "yields r ok \<longleftrightarrow> (\<forall>src x rest. r src = Inr (x, rest) \<longrightarrow> ok x)"

lemma yieldsD: "yields r ok \<Longrightarrow> r src = Inr (x, rest) \<Longrightarrow> ok x"
  by (auto simp: yields_def)

lemma yields_rbind: "yields r ok \<Longrightarrow> (\<And>x. ok x \<Longrightarrow> yields (k x) ok') \<Longrightarrow> yields (rbind r k) ok'"
  by (fastforce simp: yields_def rbind_def split: sum.splits)

lemma yields_rreturn: "ok x \<Longrightarrow> yields (rreturn x) ok"
  by (simp add: yields_def rreturn_def)

lemma yields_any: "yields r (\<lambda>_. True)"
  by (simp add: yields_def)

lemma yields_string: "yields (read_string m) (string_ok m)"
  by (auto simp: yields_def dest: read_string_ok)

lemma yields_optional: "yields r ok \<Longrightarrow> yields (read_prefixed_optional r) (pred_option ok)"
  by (auto simp: yields_def read_prefixed_optional_def split: list.splits if_splits sum.splits)

lemma yields_read_n: "yields r ok \<Longrightarrow> yields (read_n n r) (\<lambda>xs. list_all ok xs \<and> length xs = n)"
proof (induction n)
  case (Suc n)
  then show ?case unfolding yields_def by (fastforce split: sum.splits)
qed (simp add: yields_def)

lemma yields_array:
  assumes "yields r ok"
  shows "yields (read_prefixed_array m r) (\<lambda>xs. list_all ok xs \<and> length xs \<le> m)"
  using yields_read_n [OF assms]
  by (auto simp: yields_def read_prefixed_array_def split: sum.splits option.splits if_splits)

lemma yields_property: "yields property_decode_from property_ok"
  unfolding property_decode_from_def
  by (rule yields_rbind [OF yields_string], rule yields_rbind [OF yields_string],
      rule yields_rbind [OF yields_optional [OF yields_string]], rule yields_rreturn)
     (simp add: property_ok_def)

lemma yields_profile: "yields profile_decode_from profile_ok"
  unfolding profile_decode_from_def
  by (rule yields_rbind [OF yields_any], rule yields_rbind [OF yields_string],
      rule yields_rbind [OF yields_array [OF yields_property]], rule yields_rreturn)
     (simp add: profile_ok_def)

subsection \<open>The contract\<close>

text \<open>A packet whose decoder yields only values its encoder can write.\<close>

locale decoded_packet = packet_impl P ok
  for P :: "'p packet" and ok :: "'p \<Rightarrow> bool" +
  assumes decoded_ok: "decode_body P src = Inr (x, rest) \<Longrightarrow> ok x"
begin

text \<open>Decoding, encoding and decoding again changes nothing, whatever bytes the value came from.\<close>

lemma reencodes:
  "decode_body P src = Inr (x, rest) \<Longrightarrow>
     snd (encode_body P x) = Inr () \<and> decode_body P (fst (encode_body P x) @ ys) = Inr (x, ys)"
  using decoded_ok by (simp add: encode_total rd_wr)

end

lemma decoded_packetI: "packet_impl P ok \<Longrightarrow> yields (decode_body P) ok \<Longrightarrow> decoded_packet P ok"
  by (simp add: decoded_packet_def decoded_packet_axioms_def yieldsD)

lemma bodies_yield:
  "yields (decode_body Handshake) handshake_ok" "yields (decode_body StatusResponse) status_response_ok"
  "yields (decode_body LoginDisconnect) login_disconnect_ok" "yields (decode_body LoginStart) login_start_ok"
  "yields (decode_body LoginSuccess) login_success_ok"
  unfolding packet_defs packet.simps
  by (rule yields_rbind [OF yields_any], rule yields_rbind [OF yields_string], rule yields_rbind [OF yields_any],
      rule yields_rbind [OF yields_any], rule yields_rbind [OF yields_any], rule yields_rreturn,
      simp add: handshake_ok_def)
     (rule yields_rbind [OF yields_string] yields_rbind [OF yields_profile], 
      (rule yields_rbind [OF yields_any])?, rule yields_rreturn, simp add: packet_ok_defs)+

interpretation decoded_handshake: decoded_packet Handshake handshake_ok
  by (rule decoded_packetI) (rule Handshake.packet_impl_axioms bodies_yield)+

interpretation decoded_status_request: decoded_packet StatusRequest "\<lambda>_. True"
  by (rule decoded_packetI) (rule StatusRequest.packet_impl_axioms yields_any)+

interpretation decoded_status_response: decoded_packet StatusResponse status_response_ok
  by (rule decoded_packetI) (rule StatusResponse.packet_impl_axioms bodies_yield)+

interpretation decoded_ping: decoded_packet PingRequest "\<lambda>_. True"
  by (rule decoded_packetI) (rule PingRequest.packet_impl_axioms yields_any)+

interpretation decoded_pong: decoded_packet PongResponse "\<lambda>_. True"
  by (rule decoded_packetI) (rule PongResponse.packet_impl_axioms yields_any)+

interpretation decoded_login_disconnect: decoded_packet LoginDisconnect login_disconnect_ok
  by (rule decoded_packetI) (rule LoginDisconnect.packet_impl_axioms bodies_yield)+

interpretation decoded_login_start: decoded_packet LoginStart login_start_ok
  by (rule decoded_packetI) (rule LoginStart.packet_impl_axioms bodies_yield)+

interpretation decoded_set_compression: decoded_packet SetCompression "\<lambda>_. True"
  by (rule decoded_packetI) (rule SetCompression.packet_impl_axioms yields_any)+

interpretation decoded_login_success: decoded_packet LoginSuccess login_success_ok
  by (rule decoded_packetI) (rule LoginSuccess.packet_impl_axioms bodies_yield)+

interpretation decoded_login_acknowledged: decoded_packet LoginAcknowledged "\<lambda>_. True"
  by (rule decoded_packetI) (rule LoginAcknowledged.packet_impl_axioms yields_any)+

text \<open>
  C27: Decoded packets are well typed: whatever bytes they came from, the strings of a decoded packet are
  valid UTF-8 within the limits of their fields and its properties within theirs, so it can be encoded
  again, and decoding that gives the same packet.
\<close>

theorem decoded_packets_typed:
  "(decode_body Handshake src = Inr (h, rest) \<longrightarrow>
      string_ok MAX_SERVER_ADDRESS_CHARS (server_address h) \<and>
      snd (encode_body Handshake h) = Inr () \<and>
      decode_body Handshake (fst (encode_body Handshake h) @ ys) = Inr (h, ys)) \<and>
   (decode_body StatusResponse src = Inr (r, rest) \<longrightarrow>
      string_ok MAX_STATUS_JSON_CHARS (status_json r) \<and>
      snd (encode_body StatusResponse r) = Inr () \<and>
      decode_body StatusResponse (fst (encode_body StatusResponse r) @ ys) = Inr (r, ys)) \<and>
   (decode_body LoginDisconnect src = Inr (d, rest) \<longrightarrow>
      string_ok MAX_DISCONNECT_REASON_CHARS (reason d) \<and>
      snd (encode_body LoginDisconnect d) = Inr () \<and>
      decode_body LoginDisconnect (fst (encode_body LoginDisconnect d) @ ys) = Inr (d, ys)) \<and>
   (decode_body LoginStart src = Inr (s, rest) \<longrightarrow>
      string_ok MAX_USERNAME_CHARS (ls_name s) \<and>
      snd (encode_body LoginStart s) = Inr () \<and>
      decode_body LoginStart (fst (encode_body LoginStart s) @ ys) = Inr (s, ys)) \<and>
   (decode_body LoginSuccess src = Inr (u, rest) \<longrightarrow>
      profile_ok (profile u) \<and>
      snd (encode_body LoginSuccess u) = Inr () \<and>
      decode_body LoginSuccess (fst (encode_body LoginSuccess u) @ ys) = Inr (u, ys))"
  using decoded_handshake.decoded_ok [of src h rest] decoded_handshake.reencodes [of src h rest ys]
    decoded_status_response.decoded_ok [of src r rest] decoded_status_response.reencodes [of src r rest ys]
    decoded_login_disconnect.decoded_ok [of src d rest] decoded_login_disconnect.reencodes [of src d rest ys]
    decoded_login_start.decoded_ok [of src s rest] decoded_login_start.reencodes [of src s rest ys]
    decoded_login_success.decoded_ok [of src u rest] decoded_login_success.reencodes [of src u rest ys]
  by (simp add: handshake_ok_def status_response_ok_def login_disconnect_ok_def login_start_ok_def
      login_success_ok_def)

theorem decoded_packets_typed_witness:
  "string_ok MAX_USERNAME_CHARS (ls_name \<lparr>ls_name = [], ls_uuid = 7\<rparr>) \<and>
   decode_body LoginStart (fst (encode_body LoginStart \<lparr>ls_name = [], ls_uuid = 7\<rparr>) @ [1]) =
     Inr (\<lparr>ls_name = [], ls_uuid = 7\<rparr>, [1])"
proof -
  have "login_start_ok \<lparr>ls_name = [], ls_uuid = 7\<rparr>" by (simp add: login_start_ok_def string_ok_def)
  then have "decode_body LoginStart (fst (encode_body LoginStart \<lparr>ls_name = [], ls_uuid = 7\<rparr>)) =
      Inr (\<lparr>ls_name = [], ls_uuid = 7\<rparr>, [])" by (rule LoginStart.rd_wr_exact)
  with decoded_packets_typed show ?thesis by blast
qed

end
