(* ===== verification/NbtLimits.thy ===== *)
theory NbtLimits
  imports NbtRoundtrip
begin

text \<open>
  The limits of the NBT decoder, exactly. A document the encoder writes is accepted or refused by the
  decoder for one reason only, the number of its tags; a chain of compounds is accepted up to
  \<open>MAX_DEPTH\<close> and refused from there on, whatever follows it.
\<close>

subsection \<open>The node budget\<close>

text \<open>One payload over budget, given that what it contains is refused when it is over budget.\<close>

lemma over_budget_payload:
  assumes w: "write_payload t depth = Inr bs" "wf_tag t" "n \<le> MAX_TOTAL_NODES" "MAX_TOTAL_NODES < n + tag_nodes t"
    and items: "\<And>et ts v ibs k rest. \<not> MAX_DEPTH < depth \<Longrightarrow> t = Nbt_List (NbtList et ts) \<Longrightarrow>
      array_len (length ts) = Inr v \<Longrightarrow> write_items ts (depth + 1) = Inr ibs \<Longrightarrow>
      k \<le> MAX_TOTAL_NODES \<Longrightarrow> MAX_TOTAL_NODES < k + sum_list (map tag_nodes ts) \<Longrightarrow>
      read_items (length ts) (ibs @ rest) et (depth + 1) k = Inl (TooManyNodes MAX_TOTAL_NODES)"
    and body: "\<And>c cbs k rest. \<not> MAX_DEPTH < depth \<Longrightarrow> t = Nbt_Compound c \<Longrightarrow>
      write_compound_body c (depth + 1) = Inr cbs \<Longrightarrow> k \<le> MAX_TOTAL_NODES \<Longrightarrow>
      MAX_TOTAL_NODES < k + compound_nodes c \<Longrightarrow>
      read_compound_body (cbs @ rest) (depth + 1) k = Inl (TooManyNodes MAX_TOTAL_NODES)"
  shows "read_payload (bs @ rest) (nbt_id t) depth n = Inl (TooManyNodes MAX_TOTAL_NODES)"
proof (cases "n = MAX_TOTAL_NODES")
  case True
  moreover have "\<not> MAX_DEPTH < depth" using w(1) by (auto simp: write_payload.simps split: if_splits)
  ultimately show ?thesis by (simp add: read_payload.simps)
next
  case False
  note p = w(1) [unfolded write_payload.simps]
  from p have d: "\<not> MAX_DEPTH < depth" by (auto split: if_splits)
  from False w(3) have n: "n + 1 \<le> MAX_TOTAL_NODES" by simp
  show ?thesis
  proof (cases t rule: nbt_tag_shape)
    case (list et ts)
    from p d obtain v ibs where
        l: "array_len (length ts) = Inr v" "write_items ts (depth + 1) = Inr ibs"
          "bs = tag_id_code et # to_be_bytes 4 v @ ibs"
      by (auto simp: list split: sum.splits)
    from w(2) have et: "list_all (\<lambda>t. nbt_id t = et) ts" by (simp add: list)
    have "read_length (min_element_size et) (to_be_bytes 4 v @ ibs @ rest) = Inr (length ts, ibs @ rest)"
      using write_items_min [OF l(2) et] by (intro read_length_write [OF l(1)]) auto
    moreover have "\<not> (et = Id_End \<and> length ts \<noteq> 0)"
      using et by (cases ts) auto
    ultimately show ?thesis
      using items [OF d list l(1,2), of "n + 1" rest] d n w(4)
      by (simp add: list l(3) read_payload.simps del: tag_id_code.simps)
  next
    case (compound c)
    with p d body [OF d compound, of bs "n + 1" rest] n w(4) show ?thesis
      by (simp add: read_payload.simps)
  qed (use w n in \<open>simp add: tag_nodes_leaf\<close>)
qed

text \<open>An entry whose payload is refused.\<close>

lemma read_entries_refused:
  assumes "write_nbt_string name = Inr nbs" "utf8_valid name"
    and "read_payload (pbs @ src) (nbt_id tag) depth n = Inl e"
  shows "read_entries (tag_id_code (nbt_id tag) # nbs @ pbs @ src) depth n cmp = Inl e"
  using assms(3) by (simp add: read_entries.simps [of "_ # _"] read_nbt_string_write [OF assms(1,2)])

lemma over_budget:
  "write_compound_body c depth = Inr bs \<Longrightarrow> wf_compound c \<Longrightarrow> n \<le> MAX_TOTAL_NODES \<Longrightarrow>
     MAX_TOTAL_NODES < n + compound_nodes c \<Longrightarrow>
     read_compound_body (bs @ rest) depth n = Inl (TooManyNodes MAX_TOTAL_NODES)"
  "write_entries es depth = Inr bs \<Longrightarrow> list_all (\<lambda>(k, t). utf8_valid k \<and> wf_tag t) es \<Longrightarrow>
     n \<le> MAX_TOTAL_NODES \<Longrightarrow> MAX_TOTAL_NODES < n + compound_nodes (NbtCompound es) \<Longrightarrow>
     read_entries (bs @ rest) depth n cmp = Inl (TooManyNodes MAX_TOTAL_NODES)"
  "write_payload t depth = Inr bs \<Longrightarrow> wf_tag t \<Longrightarrow> n \<le> MAX_TOTAL_NODES \<Longrightarrow>
     MAX_TOTAL_NODES < n + tag_nodes t \<Longrightarrow>
     read_payload (bs @ rest) (nbt_id t) depth n = Inl (TooManyNodes MAX_TOTAL_NODES)"
  "write_items ts depth = Inr bs \<Longrightarrow> list_all wf_tag ts \<Longrightarrow> list_all (\<lambda>t. nbt_id t = et) ts \<Longrightarrow>
     n \<le> MAX_TOTAL_NODES \<Longrightarrow> MAX_TOTAL_NODES < n + sum_list (map tag_nodes ts) \<Longrightarrow>
     read_items (length ts) (bs @ rest) et depth n = Inl (TooManyNodes MAX_TOTAL_NODES)"
proof (induction c depth and es depth and t depth and ts depth
    arbitrary: bs n rest and bs n rest cmp and bs n rest and bs n rest et
    rule: write_compound_body_write_entries_write_payload_write_items.induct)
  case (1 c depth)
  obtain es where c: "c = NbtCompound es" by (cases c)
  with "1.prems" obtain bs' where "\<not> MAX_DEPTH < depth" "write_entries es depth = Inr bs'" "bs = bs' @ [0]"
    by (auto simp: write_compound_body.simps split: if_splits sum.splits)
  with "1.IH" [of bs' n "0 # rest" "NbtCompound []"] "1.prems"(2-) show ?case
    by (simp add: c read_compound_body.simps compound_new_def)
next
  case (3 name tag es depth)
  from "3.prems"(1) obtain nbs pbs rbs where
      w: "write_nbt_string name = Inr nbs" "write_payload tag depth = Inr pbs"
        "write_entries es depth = Inr rbs" "bs = tag_id_code (nbt_id tag) # nbs @ pbs @ rbs"
    by (auto split: sum.splits)
  from "3.prems"(2) have name: "utf8_valid name" and tag: "wf_tag tag" by simp_all
  show ?case
  proof (cases "n + tag_nodes tag \<le> MAX_TOTAL_NODES")
    case True
    from read_written(3) [OF w(2) tag True, of "rbs @ rest"] w(1) name
    have "read_entries (bs @ rest) depth n cmp =
        read_entries (rbs @ rest) depth (n + tag_nodes tag) (compound_push name tag cmp)"
      by (simp add: w(4) read_entries_step)
    with "3.IH"(2) [OF w(1,2,3), of "n + tag_nodes tag" rest "compound_push name tag cmp"] True "3.prems"
    show ?thesis by simp
  next
    case False
    with "3.IH"(1) [OF w(1,2), of n "rbs @ rest"] "3.prems" show ?thesis
      by (simp add: w(4) read_entries_refused [OF w(1) name])
  qed
next
  case (4 tag depth)
  show ?case
  proof (rule over_budget_payload [OF "4.prems"])
    show "read_items (length ts) (ibs @ rest) et (depth + 1) k = Inl (TooManyNodes MAX_TOTAL_NODES)"
      if "\<not> MAX_DEPTH < depth" "tag = Nbt_List (NbtList et ts)" "array_len (length ts) = Inr v"
        "write_items ts (depth + 1) = Inr ibs" "k \<le> MAX_TOTAL_NODES"
        "MAX_TOTAL_NODES < k + sum_list (map tag_nodes ts)"
      for et ts v ibs k rest
      using "4.IH"(1) [OF that(1,2)] that "4.prems"(2) by simp
  qed (use "4.IH"(2) "4.prems"(2) in auto)
next
  case (6 tag ts depth)
  from "6.prems"(1) obtain pbs rbs where
      w: "write_payload tag depth = Inr pbs" "write_items ts depth = Inr rbs" "bs = pbs @ rbs"
    by (auto split: sum.splits)
  from "6.prems"(2,3) have tag: "wf_tag tag" "nbt_id tag = et" by simp_all
  show ?case
  proof (cases "n + tag_nodes tag \<le> MAX_TOTAL_NODES")
    case True
    from read_written(3) [OF w(1) tag(1) True, of "rbs @ rest"] tag(2)
      "6.IH"(2) [OF w(1,2), of et "n + tag_nodes tag" rest] True "6.prems"
    show ?thesis by (simp add: w(3))
  next
    case False
    with "6.IH"(1) [OF w(1), of n "rbs @ rest"] "6.prems" tag(2) show ?thesis by (simp add: w(3))
  qed
qed simp_all

lemma read_network_root_over_budget:
  assumes "write_network_root c = Inr bs" "wf_compound c" "MAX_TOTAL_NODES < compound_nodes c"
  shows "read_network_root (bs @ rest) = Inl (TooManyNodes MAX_TOTAL_NODES)"
proof -
  from assms(1) obtain bs' where "write_compound_body c 1 = Inr bs'" "bs = tag_id_code Id_Compound # bs'"
    by (auto simp: write_network_root_def split: sum.splits)
  with over_budget(1) [of c 1 bs' 0 rest] assms(2,3) show ?thesis
    by (simp add: read_network_root_def del: tag_id_code.simps)
qed

text \<open>The encoder writes a list of as many empty compounds as there are nodes in the budget.\<close>

lemma over_budget_written:
  "\<exists>c bs. wf_compound c \<and> write_network_root c = Inr bs \<and> MAX_TOTAL_NODES < compound_nodes c"
proof -
  let ?c = "NbtCompound [([], Nbt_List (NbtList Id_Compound (replicate MAX_TOTAL_NODES (Nbt_Compound compound_new))))]"
  have "fold max (replicate k (Suc 0)) 0 \<le> m" if "1 \<le> m" for k m :: nat
    unfolding fold_max_le using that by simp
  then have "compound_fits ?c \<and> compound_nesting ?c \<le> MAX_DEPTH"
    by (simp add: compound_new_def MAX_DEPTH_def MAX_TOTAL_NODES_def map_replicate_const list_all_iff
        del: fold_replicate)
  then obtain bs where bs: "write_network_root ?c = Inr bs" using write_network_root_ok by blast
  have "wf_compound ?c" by (simp add: compound_new_def list_all_iff)
  moreover have "MAX_TOTAL_NODES < compound_nodes ?c" by (simp add: compound_new_def sum_list_replicate)
  ultimately show ?thesis using bs by (intro exI [of _ ?c] exI [of _ bs] conjI)
qed

text \<open>
  C40: The decoder's verdict on everything the encoder writes: a well-formed document is returned, with the
  bytes after it left alone, if it has at most \<open>MAX_TOTAL_NODES\<close> tags, and otherwise refused as
  \<open>TooManyNodes\<close>; there is no third case. The limit is the decoder's alone: the encoder does write
  documents beyond it.
\<close>

theorem nbt_budget_exact:
  assumes "wf_compound c" "write_network_root c = Inr bs"
  shows "read_network_root (bs @ rest) =
      (if compound_nodes c \<le> MAX_TOTAL_NODES then Inr (c, rest) else Inl (TooManyNodes MAX_TOTAL_NODES)) \<and>
    (\<exists>d ds. wf_compound d \<and> write_network_root d = Inr ds \<and> MAX_TOTAL_NODES < compound_nodes d)"
  using read_network_root_over_budget [OF assms(2,1)] network_nbt.dec_enc [OF assms(2)] assms(1)
    over_budget_written
  by (simp add: nbt_doc_ok_def)

theorem nbt_budget_exact_witness:
  "read_network_root ((10 # sample_body) @ [0xAB]) = Inr (sample_doc, [0xAB]) \<and>
   (\<exists>d ds. wf_compound d \<and> write_network_root d = Inr ds \<and> MAX_TOTAL_NODES < compound_nodes d)"
  using nbt_budget_exact [OF sample_doc_ok(1) write_sample_doc(1), of "[0xAB]"] sample_doc_ok(2) by simp

subsection \<open>The nesting limit\<close>

text \<open>A chain of \<open>n\<close> compounds inside the root, each the only entry of the one around it, with an empty name.\<close>

fun nested :: "nat \<Rightarrow> nbt_compound" where
  "nested 0 = compound_new"
| "nested (Suc n) = NbtCompound [([], Nbt_Compound (nested n))]"

definition chain :: "nat \<Rightarrow> byte list" where
  "chain n = concat (replicate n [0x0A, 0, 0])"

lemma chain_Suc: "chain (Suc n) = 0x0A # 0 # 0 # chain n"
  by (simp add: chain_def)

lemma read_chain_step:
  assumes "depth \<le> MAX_DEPTH" "k < MAX_TOTAL_NODES"
  shows "read_compound_body (chain (Suc n) @ src) depth k =
    (case read_compound_body (chain n @ src) (depth + 1) (k + 1) of
       Inl e \<Rightarrow> Inl e
     | Inr (c, src', k') \<Rightarrow> read_entries src' depth k' (compound_push [] (Nbt_Compound c) compound_new))"
proof -
  have "read_tag_id (0x0A # xs) = Inr (Id_Compound, xs)" for xs
    using read_tag_id_code [of Id_Compound xs] by simp
  moreover have "read_nbt_string (0 # 0 # xs) = Inr ([], xs)" for xs
    by (simp add: read_nbt_string_def get_be_def from_be_bytes_def numeral_2_eq_2)
  ultimately show ?thesis
    using assms
    by (simp add: read_compound_body.simps [of "_ # _"] read_entries.simps [of "_ # _"] chain_Suc
        read_payload.simps split: sum.splits)
qed

lemma read_chain:
  "k + n < MAX_TOTAL_NODES \<Longrightarrow>
     read_compound_body (chain n @ replicate (Suc n) 0 @ rest) depth k =
       (if depth + n \<le> MAX_DEPTH then Inr (nested n, rest, k + n) else Inl (DepthExceeded MAX_DEPTH))"
proof (induction n arbitrary: depth k rest)
  case 0
  then show ?case by (simp add: chain_def read_compound_body.simps read_entries_end compound_new_def)
next
  case (Suc n)
  show ?case
  proof (cases "depth \<le> MAX_DEPTH")
    case True
    have r: "replicate (Suc (Suc n)) 0 @ rest = replicate (Suc n) 0 @ 0 # rest"
      by (simp add: replicate_app_Cons_same)
    show ?thesis
      unfolding r using Suc True
      by (simp add: read_chain_step read_entries_end compound_push_def compound_new_def del: replicate_Suc)
  qed (simp add: read_compound_body.simps)
qed

text \<open>
  The nesting limit, exactly: a chain of compounds inside the root is returned if it has fewer than
  \<open>MAX_DEPTH\<close> of them, and refused as \<open>DepthExceeded\<close> otherwise.
\<close>

theorem nbt_depth_exact:
  assumes "n < MAX_TOTAL_NODES"
  shows "read_network_root (0x0A # chain n @ replicate (Suc n) 0 @ rest) =
    (if n < MAX_DEPTH then Inr (nested n, rest) else Inl (DepthExceeded MAX_DEPTH))"
proof -
  have "read_tag_id (0x0A # xs) = Inr (Id_Compound, xs)" for xs
    using read_tag_id_code [of Id_Compound xs] by simp
  with read_chain [of 0 n rest 1] assms show ?thesis by (simp add: read_network_root_def)
qed

theorem nbt_depth_exact_witness:
  "read_network_root (0x0A # chain 1 @ replicate (Suc 1) 0 @ [0xAB]) =
    (if 1 < MAX_DEPTH then Inr (nested 1, [0xAB]) else Inl (DepthExceeded MAX_DEPTH))"
  by (rule nbt_depth_exact) (simp add: MAX_TOTAL_NODES_def)

end
