(* ===== verification/NbtAlloc.thy ===== *)
theory NbtAlloc
  imports NbtLimits
begin

text \<open>
  What the NBT decoder reserves on the word of a length field: the \<open>Vec::with_capacity\<close> calls of
  \<open>read_payload\<close> in \<open>crates/nbt/src/read.rs\<close>, the buffer \<open>vec![0u8; len]\<close> of \<open>read_nbt_string\<close>, for names and for
  strings, and the copy \<open>copy_to_bytes(len)\<close> of a byte array. The functions below list what a decode asks
  for, in order, an entry per call, whether the decode then succeeds or fails; where they continue they follow
  the decoder itself, so they are about the same run. The elements of a list are tags, those of an
  array integers.
\<close>

definition MAX_PREALLOC_ELEMENTS :: usize where
  "MAX_PREALLOC_ELEMENTS = 64"

datatype reservation = TagSlots usize | IntSlots usize | LongSlots usize | ByteSlots usize

definition with_capacity :: "usize \<Rightarrow> usize" where
  "with_capacity len = min len MAX_PREALLOC_ELEMENTS"

text \<open>\<open>read_nbt_string\<close> allocates once its length is known to be there, before it looks at the bytes.\<close>

definition alloc_string :: "byte list \<Rightarrow> reservation list" where
  "alloc_string src =
     (if length src < 2 then []
      else let (prefix :: u16, src) = get_be 2 src; len = unat prefix in
        if length src < len then [] else [ByteSlots len])"

lemma payload_shrinks: "read_payload src i depth n = Inr (t, src', n') \<Longrightarrow> length src' \<le> length src"
  by (drule written_read(3)) auto

function (sequential)
      alloc_compound_body :: "byte list \<Rightarrow> usize \<Rightarrow> usize \<Rightarrow> reservation list"
  and alloc_entries :: "byte list \<Rightarrow> usize \<Rightarrow> usize \<Rightarrow> reservation list"
  and alloc_payload :: "byte list \<Rightarrow> tag_id \<Rightarrow> usize \<Rightarrow> usize \<Rightarrow> reservation list"
  and alloc_items :: "usize \<Rightarrow> byte list \<Rightarrow> tag_id \<Rightarrow> usize \<Rightarrow> usize \<Rightarrow> reservation list" where
  "alloc_compound_body src depth nodes = (if depth > MAX_DEPTH then [] else alloc_entries src depth nodes)"
| "alloc_entries src depth nodes =
     (case read_tag_id src of
        Inl e \<Rightarrow> []
      | Inr (i, src1) \<Rightarrow>
          if i = Id_End then []
          else alloc_string src1 @
            (case read_nbt_string src1 of
               Inl e \<Rightarrow> []
             | Inr (name, src2) \<Rightarrow>
                 alloc_payload src2 i depth nodes @
                 (case read_payload src2 i depth nodes of
                    Inl e \<Rightarrow> []
                  | Inr (v, src3, nodes3) \<Rightarrow> alloc_entries src3 depth nodes3)))"
| "alloc_payload src i depth nodes =
     (if depth > MAX_DEPTH then []
      else if nodes + 1 > MAX_TOTAL_NODES then []
      else (case i of
        Id_ByteArray \<Rightarrow> (case read_length 1 src of Inl e \<Rightarrow> [] | Inr (len, _) \<Rightarrow> [ByteSlots len])
      | Id_String \<Rightarrow> alloc_string src
      | Id_List \<Rightarrow>
          (case read_tag_id src of
             Inl e \<Rightarrow> []
           | Inr (et, src1) \<Rightarrow>
               (case read_length (min_element_size et) src1 of
                  Inl e \<Rightarrow> []
                | Inr (len, src2) \<Rightarrow>
                    if et = Id_End \<and> len \<noteq> 0 then []
                    else TagSlots (with_capacity len) # alloc_items len src2 et (depth + 1) (nodes + 1)))
      | Id_Compound \<Rightarrow> alloc_compound_body src (depth + 1) (nodes + 1)
      | Id_IntArray \<Rightarrow> (case read_length 4 src of Inl e \<Rightarrow> [] | Inr (len, _) \<Rightarrow> [IntSlots (with_capacity len)])
      | Id_LongArray \<Rightarrow> (case read_length 8 src of Inl e \<Rightarrow> [] | Inr (len, _) \<Rightarrow> [LongSlots (with_capacity len)])
      | _ \<Rightarrow> []))"
| "alloc_items 0 src et depth nodes = []"
| "alloc_items (Suc n) src et depth nodes =
     alloc_payload src et depth nodes @
     (case read_payload src et depth nodes of
        Inl e \<Rightarrow> []
      | Inr (t, src1, nodes1) \<Rightarrow> alloc_items n src1 et depth nodes1)"
  by pat_completeness auto
termination alloc_compound_body
  by (relation "measures
     [\<lambda>x. case x of
        Inl (Inl (src, _, _)) \<Rightarrow> length src
      | Inl (Inr (src, _, _)) \<Rightarrow> length src
      | Inr (Inl (src, _, _, _)) \<Rightarrow> length src
      | Inr (Inr (_, src, _, _, _)) \<Rightarrow> length src,
      \<lambda>x. case x of
        Inl (Inl _) \<Rightarrow> 1
      | Inl (Inr _) \<Rightarrow> 0
      | Inr (Inl _) \<Rightarrow> 2
      | Inr (Inr (n, _, _, _, _)) \<Rightarrow> 3 + n]")
     (fastforce dest: reader_shrinks payload_shrinks)+

declare alloc_compound_body.simps [simp del] alloc_entries.simps [simp del] alloc_payload.simps [simp del]

definition alloc_network_root :: "byte list \<Rightarrow> reservation list" where
  "alloc_network_root src =
     (case read_tag_id src of
        Inl e \<Rightarrow> []
      | Inr (i, src1) \<Rightarrow> if i \<noteq> Id_Compound then [] else alloc_compound_body src1 1 0)"

fun slots :: "reservation list \<Rightarrow> nat" where
  "slots [] = 0"
| "slots (TagSlots n # rs) = n + slots rs"
| "slots (_ # rs) = slots rs"

fun array_bytes :: "reservation list \<Rightarrow> nat" where
  "array_bytes [] = 0"
| "array_bytes (TagSlots n # rs) = array_bytes rs"
| "array_bytes (IntSlots n # rs) = 4 * n + array_bytes rs"
| "array_bytes (LongSlots n # rs) = 8 * n + array_bytes rs"
| "array_bytes (ByteSlots n # rs) = n + array_bytes rs"

lemma slots_append [simp]: "slots (xs @ ys) = slots xs + slots ys"
  by (induction xs rule: slots.induct) simp_all

lemma array_bytes_append [simp]: "array_bytes (xs @ ys) = array_bytes xs + array_bytes ys"
  by (induction xs rule: array_bytes.induct) simp_all

lemma alloc_string_slots [simp]: "slots (alloc_string src) = 0"
  by (simp add: alloc_string_def Let_def split: prod.splits)

text \<open>What a string reserves is within what it takes from the input, and within the input if it fails.\<close>

lemma alloc_string_bytes:
  "array_bytes (alloc_string src) \<le> length src"
  "read_nbt_string src = Inr (s, rest) \<Longrightarrow> array_bytes (alloc_string src) + length rest \<le> length src"
  by (auto simp: alloc_string_def read_nbt_string_def get_be_def Let_def split: if_splits sum.splits)

lemma with_capacity_le: "with_capacity len \<le> len" "with_capacity len \<le> 64"
  by (simp_all add: with_capacity_def MAX_PREALLOC_ELEMENTS_def)

subsection \<open>Slots for tags\<close>

text \<open>
  What a run that starts with \<open>n\<close> nodes at a depth may have reserved. A list that was read to its end
  has filled what was reserved for it; at most the lists still open when the run fails, one for each
  level of nesting, have not.
\<close>

definition open_lists :: "usize \<Rightarrow> nat" where
  "open_lists depth = MAX_PREALLOC_ELEMENTS * (MAX_DEPTH + 1 - depth)"

definition slots_ok :: "usize \<Rightarrow> usize \<Rightarrow> nat \<Rightarrow> nbt_error + 'a \<times> byte list \<times> usize \<Rightarrow> reservation list \<Rightarrow> bool" where
  "slots_ok depth n k r rs \<longleftrightarrow>
     (case r of
        Inl _ \<Rightarrow> slots rs \<le> MAX_TOTAL_NODES - n + open_lists depth
      | Inr (_, _, n') \<Rightarrow> n + k + slots rs \<le> n')"

lemma open_lists_step: "depth \<le> MAX_DEPTH \<Longrightarrow> with_capacity len + open_lists (depth + 1) \<le> open_lists depth"
  by (simp add: open_lists_def with_capacity_def Suc_diff_le algebra_simps)

lemma open_lists_mono: "open_lists (Suc depth) \<le> open_lists depth"
  by (simp add: open_lists_def diff_le_mono)

lemma payload_nodes: "read_payload src i depth n = Inr (t, src', n') \<Longrightarrow> n < n' \<and> n' \<le> MAX_TOTAL_NODES"
  by (drule written_read(3)) (use tag_nodes_pos [of t] in auto)

lemma slots_ok_seq:
  assumes "slots_ok depth n k (Inr (v, src, n')) xs" "n' \<le> MAX_TOTAL_NODES" "slots_ok depth n' j r ys"
  shows "slots_ok depth n (k + j) r (xs @ ys)"
  using assms by (auto simp: slots_ok_def split: sum.splits)

lemma slots_ok_weaken: "slots_ok depth n k r xs \<Longrightarrow> j \<le> k \<Longrightarrow> slots_ok depth n j r xs"
  by (auto simp: slots_ok_def split: sum.splits)

text \<open>One level of nesting, entered by a list that reserves and by a compound that does not.\<close>

lemma slots_ok_list:
  assumes "slots_ok (depth + 1) (n + 1) len r xs" "depth \<le> MAX_DEPTH" "n + 1 \<le> MAX_TOTAL_NODES"
  shows "slots_ok depth n 1
    (case r of Inl e \<Rightarrow> Inl e | Inr (ts, src, n') \<Rightarrow> Inr (f ts, src, n'))
    (TagSlots (with_capacity len) # xs)"
  using assms with_capacity_le(1) [of len] open_lists_step [of depth len]
  by (auto simp: slots_ok_def split: sum.splits)

lemma slots_ok_compound:
  assumes "slots_ok (depth + 1) (n + 1) 0 r xs" "n + 1 \<le> MAX_TOTAL_NODES"
  shows "slots_ok depth n 1 (case r of Inl e \<Rightarrow> Inl e | Inr (c, src, n') \<Rightarrow> Inr (f c, src, n')) xs"
  using assms open_lists_mono [of depth] by (auto simp: slots_ok_def split: sum.splits)

lemma slots_ok_leaf: "slots rs = 0 \<Longrightarrow> (\<And>t src' n'. r = Inr (t, src', n') \<Longrightarrow> n + k \<le> n') \<Longrightarrow> slots_ok depth n k r rs"
  by (auto simp: slots_ok_def split: sum.splits)

lemma alloc_slots:
  "n \<le> MAX_TOTAL_NODES \<Longrightarrow> slots_ok depth n 0 (read_compound_body src depth n) (alloc_compound_body src depth n)"
  "n \<le> MAX_TOTAL_NODES \<Longrightarrow> slots_ok depth n 0 (read_entries src depth n cmp) (alloc_entries src depth n)"
  "n \<le> MAX_TOTAL_NODES \<Longrightarrow> slots_ok depth n 1 (read_payload src i depth n) (alloc_payload src i depth n)"
  "n \<le> MAX_TOTAL_NODES \<Longrightarrow> slots_ok depth n k (read_items k src i depth n) (alloc_items k src i depth n)"
proof (induction src depth n and src depth n and src i depth n and k src i depth n
    arbitrary: and cmp and and
    rule: alloc_compound_body_alloc_entries_alloc_payload_alloc_items.induct)
  case (1 src depth n)
  then show ?case
    by (simp add: slots_ok_def read_compound_body.simps alloc_compound_body.simps)
next
  case (2 src depth n)
  note unfold = read_entries.simps [of src] alloc_entries.simps [of src]
  show ?case
  proof (cases "\<exists>i src1 name src2. read_tag_id src = Inr (i, src1) \<and> i \<noteq> Id_End \<and> read_nbt_string src1 = Inr (name, src2)")
    case True
    then obtain i src1 name src2 where r: "read_tag_id src = Inr (i, src1)" "i \<noteq> Id_End"
        "read_nbt_string src1 = Inr (name, src2)" by blast
    note IH = "2.IH"(1) [OF r(1) refl r(2,3) refl "2.prems"]
    show ?thesis
    proof (cases "read_payload src2 i depth n")
      case (Inl e)
      with IH r show ?thesis by (simp add: unfold slots_ok_def)
    next
      case (Inr p)
      obtain v src3 n3 where p: "p = (v, src3, n3)" by (cases p)
      have n3: "n3 \<le> MAX_TOTAL_NODES" using payload_nodes Inr p by blast
      have "slots_ok depth n3 0 (read_entries src3 depth n3 (compound_push name v cmp)) (alloc_entries src3 depth n3)"
        using "2.IH"(2) [OF r(1) refl r(2,3) refl Inr p [symmetric] refl n3] .
      from slots_ok_seq [OF IH [unfolded Inr p] n3 this] r Inr p show ?thesis
        by (auto simp: unfold slots_ok_def split: sum.splits)
    qed
  qed (auto simp: unfold slots_ok_def split: sum.splits prod.splits)
next
  case (3 src i depth n)
  show ?case
  proof (cases "depth > MAX_DEPTH \<or> n + 1 > MAX_TOTAL_NODES")
    case True
    then show ?thesis by (auto simp: slots_ok_def read_payload.simps alloc_payload.simps)
  next
    case False
    note unfold = read_payload.simps [of src] alloc_payload.simps [of src]
    show ?thesis
    proof (cases i)
      case Id_List
      show ?thesis
      proof (cases "\<exists>et src1 len src2. read_tag_id src = Inr (et, src1) \<and>
          read_length (min_element_size et) src1 = Inr (len, src2) \<and> \<not> (et = Id_End \<and> len \<noteq> 0)")
        case True
        then obtain et src1 len src2 where r: "read_tag_id src = Inr (et, src1)"
            "read_length (min_element_size et) src1 = Inr (len, src2)" "\<not> (et = Id_End \<and> len \<noteq> 0)" by blast
        have "slots_ok (depth + 1) (n + 1) len (read_items len src2 et (depth + 1) (n + 1))
            (alloc_items len src2 et (depth + 1) (n + 1))"
          using "3.IH"(1) False Id_List r by simp
        from slots_ok_list [OF this, of "\<lambda>ts. Nbt_List (list_from_parts et ts)"] False r Id_List show ?thesis
          by (cases "et = Id_End") (simp_all add: unfold)
      qed (use False Id_List in \<open>auto simp: unfold slots_ok_def split: sum.splits prod.splits\<close>)
    next
      case Id_Compound
      have "slots_ok (depth + 1) (n + 1) 0 (read_compound_body src (depth + 1) (n + 1))
          (alloc_compound_body src (depth + 1) (n + 1))"
        using "3.IH"(2) False Id_Compound by simp
      from slots_ok_compound [OF this, of Nbt_Compound] False Id_Compound show ?thesis by (simp add: unfold)
    qed (rule slots_ok_leaf; use False payload_nodes [of src i depth n] in
        \<open>auto simp: alloc_payload.simps [of src] Suc_le_eq split: sum.splits prod.splits\<close>)+
  qed
next
  case (4 src et depth n)
  then show ?case by (simp add: slots_ok_def)
next
  case (5 k src et depth n)
  note IH = "5.IH"(1) [OF "5.prems"]
  show ?case
  proof (cases "read_payload src et depth n")
    case (Inl e)
    with IH show ?thesis by (simp add: slots_ok_def)
  next
    case (Inr p)
    obtain t src1 n1 where p: "p = (t, src1, n1)" by (cases p)
    have n1: "n1 \<le> MAX_TOTAL_NODES" using payload_nodes Inr p by blast
    note seq = slots_ok_seq [OF IH [unfolded Inr p] n1 "5.IH"(2) [OF Inr p [symmetric] refl n1]]
    with Inr p show ?thesis by (auto simp: slots_ok_def split: sum.splits)
  qed
qed

subsection \<open>Bytes for arrays and strings\<close>

definition bytes_ok :: "byte list \<Rightarrow> nbt_error + 'a \<times> byte list \<times> usize \<Rightarrow> reservation list \<Rightarrow> bool" where
  "bytes_ok src r rs \<longleftrightarrow>
     (case r of
        Inl _ \<Rightarrow> array_bytes rs \<le> length src
      | Inr (_, rest, _) \<Rightarrow> array_bytes rs + length rest \<le> length src)"

lemma bytes_ok_seq:
  assumes "bytes_ok src (Inr (v, rest, n)) xs" "bytes_ok rest r ys"
  shows "bytes_ok src r (xs @ ys)"
  using assms by (auto simp: bytes_ok_def split: sum.splits)

lemma bytes_ok_later: "bytes_ok src' r xs \<Longrightarrow> length src' \<le> length src \<Longrightarrow> bytes_ok src r xs"
  by (auto simp: bytes_ok_def split: sum.splits)

lemma bytes_ok_map:
  "bytes_ok src r xs \<Longrightarrow> bytes_ok src (case r of Inl e \<Rightarrow> Inl e | Inr (t, rest, n) \<Rightarrow> Inr (f t, rest, n)) xs"
  by (auto simp: bytes_ok_def split: sum.splits)

text \<open>An array whose length was accepted is all there, so it cannot fail after it was reserved for.\<close>

lemma bytes_ok_array:
  assumes "read_length m src = Inr (len, src1)"
  shows "m * with_capacity len + length (drop (len * m) src1) \<le> length src"
proof -
  have "m * with_capacity len \<le> m * len" by (rule mult_le_mono2) (rule with_capacity_le)
  moreover have "m * len \<le> length src1" "length src1 \<le> length src"
    using read_length_Inr [OF assms] by (auto simp: mult.commute)
  ultimately show ?thesis unfolding length_drop mult.commute [of len m] by linarith
qed

lemma bytes_ok_leaf:
  assumes "array_bytes rs = 0" "\<And>t rest n. r = Inr (t, rest, n) \<Longrightarrow> length rest \<le> length src"
  shows "bytes_ok src r rs"
  using assms by (auto simp: bytes_ok_def split: sum.splits)

lemma alloc_bytes:
  "bytes_ok src (read_compound_body src depth n) (alloc_compound_body src depth n)"
  "bytes_ok src (read_entries src depth n cmp) (alloc_entries src depth n)"
  "bytes_ok src (read_payload src i depth n) (alloc_payload src i depth n)"
  "bytes_ok src (read_items k src i depth n) (alloc_items k src i depth n)"
proof (induction src depth n and src depth n and src i depth n and k src i depth n
    arbitrary: and cmp and and
    rule: alloc_compound_body_alloc_entries_alloc_payload_alloc_items.induct)
  case (1 src depth n)
  then show ?case
    by (simp add: bytes_ok_def read_compound_body.simps alloc_compound_body.simps)
next
  case (2 src depth n)
  note unfold = read_entries.simps [of src] alloc_entries.simps [of src]
  show ?case
  proof (cases "\<exists>i src1 name src2. read_tag_id src = Inr (i, src1) \<and> i \<noteq> Id_End \<and> read_nbt_string src1 = Inr (name, src2)")
    case True
    then obtain i src1 name src2 where r: "read_tag_id src = Inr (i, src1)" "i \<noteq> Id_End"
        "read_nbt_string src1 = Inr (name, src2)" by blast
    have "array_bytes (alloc_string src1) + length src2 \<le> length src"
      using alloc_string_bytes(2) [OF r(3)] read_tag_id_shrinks [OF r(1)] by simp
    then have IH: "bytes_ok src (read_payload src2 i depth n) (alloc_string src1 @ alloc_payload src2 i depth n)"
      using "2.IH"(1) [OF r(1) refl r(2,3) refl] by (auto simp: bytes_ok_def split: sum.splits)
    show ?thesis
    proof (cases "read_payload src2 i depth n")
      case (Inl e)
      with IH r show ?thesis by (simp add: unfold bytes_ok_def)
    next
      case (Inr p)
      obtain v src3 n3 where p: "p = (v, src3, n3)" by (cases p)
      note seq = bytes_ok_seq [OF IH [unfolded Inr p] "2.IH"(2) [OF r(1) refl r(2,3) refl Inr p [symmetric] refl]]
      from seq [of "compound_push name v cmp"] r Inr p show ?thesis by (simp add: unfold)
    qed
  next
    case False
    show ?thesis
    proof (cases "read_tag_id src")
      case (Inr p)
      obtain i src1 where p: "p = (i, src1)" by (cases p)
      with Inr read_tag_id_shrinks [of src i src1] alloc_string_bytes(1) [of src1] False show ?thesis
        by (cases "read_nbt_string src1") (auto simp: unfold bytes_ok_def split: sum.splits prod.splits)
    qed (simp add: unfold bytes_ok_def)
  qed
next
  case (3 src i depth n)
  show ?case
  proof (cases "depth > MAX_DEPTH \<or> n + 1 > MAX_TOTAL_NODES")
    case True
    then show ?thesis by (auto simp: bytes_ok_def read_payload.simps alloc_payload.simps)
  next
    case False
    note unfold = read_payload.simps [of src] alloc_payload.simps [of src]
    show ?thesis
    proof (cases i)
      case Id_List
      show ?thesis
      proof (cases "\<exists>et src1 len src2. read_tag_id src = Inr (et, src1) \<and>
          read_length (min_element_size et) src1 = Inr (len, src2) \<and> \<not> (et = Id_End \<and> len \<noteq> 0)")
        case True
        then obtain et src1 len src2 where r: "read_tag_id src = Inr (et, src1)"
            "read_length (min_element_size et) src1 = Inr (len, src2)" "\<not> (et = Id_End \<and> len \<noteq> 0)" by blast
        then have "length src2 \<le> length src" by (auto dest!: reader_shrinks)
        moreover have "bytes_ok src2 (read_items len src2 et (depth + 1) (n + 1))
            (alloc_items len src2 et (depth + 1) (n + 1))"
          using "3.IH"(1) False Id_List r by simp
        ultimately have "bytes_ok src (read_items len src2 et (depth + 1) (n + 1))
            (TagSlots (with_capacity len) # alloc_items len src2 et (depth + 1) (n + 1))"
          by (auto simp: bytes_ok_def split: sum.splits)
        from bytes_ok_map [OF this, of "\<lambda>ts. Nbt_List (list_from_parts et ts)"] False r Id_List show ?thesis
          by (cases "et = Id_End") (simp_all add: unfold)
      qed (use False Id_List in \<open>auto simp: unfold bytes_ok_def split: sum.splits prod.splits\<close>)
    next
      case Id_Compound
      have "bytes_ok src (read_compound_body src (depth + 1) (n + 1)) (alloc_compound_body src (depth + 1) (n + 1))"
        using "3.IH"(2) False Id_Compound by simp
      from bytes_ok_map [OF this, of Nbt_Compound] False Id_Compound show ?thesis by (simp add: unfold)
    next
      case Id_ByteArray
      show ?thesis
      proof (cases "read_length 1 src")
        case (Inr p)
        obtain len src1 where p: "p = (len, src1)" by (cases p)
        have "len \<le> length src1" "length src1 \<le> length src"
          using read_length_Inr(1,3) [OF Inr [unfolded p]] by auto
        with Id_ByteArray False Inr p show ?thesis by (simp add: unfold bytes_ok_def)
      qed (use Id_ByteArray False in \<open>simp add: unfold bytes_ok_def\<close>)
    next
      case Id_String
      with False show ?thesis
        using alloc_string_bytes [of src]
        by (auto simp: unfold bytes_ok_def split: sum.splits prod.splits)
    next
      case Id_IntArray
      with False show ?thesis
        using bytes_ok_array [of 4 src]
        by (auto simp: unfold bytes_ok_def Let_def split: sum.splits prod.splits dest!: read_be_values_rest)
    next
      case Id_LongArray
      with False show ?thesis
        using bytes_ok_array [of 8 src]
        by (auto simp: unfold bytes_ok_def Let_def split: sum.splits prod.splits dest!: read_be_values_rest)
    qed (rule bytes_ok_leaf; use False payload_shrinks [of src i depth n] in
        \<open>auto simp: alloc_payload.simps [of src]\<close>)+
  qed
next
  case (4 src et depth n)
  then show ?case by (simp add: bytes_ok_def)
next
  case (5 k src et depth n)
  show ?case
  proof (cases "read_payload src et depth n")
    case (Inl e)
    with "5.IH"(1) show ?thesis by (simp add: bytes_ok_def)
  next
    case (Inr p)
    obtain t src1 n1 where p: "p = (t, src1, n1)" by (cases p)
    note seq = bytes_ok_seq [OF "5.IH"(1) [unfolded Inr p] "5.IH"(2) [OF Inr p [symmetric] refl]]
    with Inr p show ?thesis by (auto simp: bytes_ok_def split: sum.splits)
  qed
qed

subsection \<open>The bound\<close>

text \<open>
  C15: What a peer can make the decoder reserve. Whatever the bytes, and whether they decode or not, the slots
  reserved for list elements are together at most \<open>MAX_TOTAL_NODES\<close> and \<open>MAX_PREALLOC_ELEMENTS\<close> for each level
  of nesting, and the memory reserved for arrays, byte arrays, strings and names is together at most the
  length of the input: a length in the document is never taken on its word. The growth of a vector beyond
  what was reserved for it, with elements that have been read, is not counted.
\<close>

theorem nbt_reservations_bounded:
  "slots (alloc_network_root src) \<le> MAX_TOTAL_NODES + MAX_PREALLOC_ELEMENTS * MAX_DEPTH \<and>
   array_bytes (alloc_network_root src) \<le> length src"
proof (cases "read_tag_id src")
  case (Inr p)
  then obtain i src1 where p: "read_tag_id src = Inr (i, src1)" by (cases p) simp
  have "slots (alloc_compound_body src1 1 0) \<le> MAX_TOTAL_NODES + MAX_PREALLOC_ELEMENTS * MAX_DEPTH"
    using alloc_slots(1) [of 0 1 src1] written_read(1) [of src1 1 0]
    by (fastforce simp: slots_ok_def open_lists_def split: sum.splits)
  moreover have "array_bytes (alloc_compound_body src1 1 0) \<le> length src"
    using alloc_bytes(1) [of src1 1 0] read_tag_id_shrinks [OF p] by (auto simp: bytes_ok_def split: sum.splits)
  ultimately show ?thesis using p by (simp add: alloc_network_root_def)
qed (simp add: alloc_network_root_def)

end
