(* ===== verification/Vectors.thy ===== *)
theory Vectors
  imports NbtLimits Codec Offline
begin

text \<open>
  The tables of the repository's own tests, evaluated on the model: the encodings the tests pin byte
  for byte, and the malformed inputs they expect to be refused. Each table is the one of the test
  module it is named after, each statement what those tests assert of every row of it.
\<close>

subsection \<open>Varints\<close>

definition VARINT_VECTORS :: "(i32 \<times> byte list) list" where
  "VARINT_VECTORS =
     [(0, [0x00]), (1, [0x01]), (2, [0x02]), (127, [0x7f]), (128, [0x80, 0x01]), (255, [0xff, 0x01]),
      (25565, [0xdd, 0xc7, 0x01]), (2097151, [0xff, 0xff, 0x7f]),
      (2147483647, [0xff, 0xff, 0xff, 0xff, 0x07]), (- 1, [0xff, 0xff, 0xff, 0xff, 0x0f]),
      (- 2147483648, [0x80, 0x80, 0x80, 0x80, 0x08])]"

definition VARLONG_VECTORS :: "(i64 \<times> byte list) list" where
  "VARLONG_VECTORS =
     [(0, [0x00]), (127, [0x7f]), (2147483647, [0xff, 0xff, 0xff, 0xff, 0x07]),
      (9223372036854775807, [0xff, 0xff, 0xff, 0xff, 0xff, 0xff, 0xff, 0xff, 0x7f]),
      (- 1, [0xff, 0xff, 0xff, 0xff, 0xff, 0xff, 0xff, 0xff, 0xff, 0x01]),
      (- 9223372036854775808, [0x80, 0x80, 0x80, 0x80, 0x80, 0x80, 0x80, 0x80, 0x80, 0x01])]"

lemma varint_vectors:
  "list_all (\<lambda>(v, bs). write_varint v = bs \<and> read_varint bs = Inr (v, []) \<and> varint_len v = length bs \<and>
     read_varint_slice bs = Inr (Some (v, length bs))) VARINT_VECTORS"
  by code_simp

lemma varlong_vectors:
  "list_all (\<lambda>(v, bs). write_varlong v = bs \<and> read_varlong bs = Inr (v, [])) VARLONG_VECTORS"
  by code_simp

lemma varint_overlong:
  "read_varint [0x80, 0x80, 0x80, 0x80, 0x80, 0x01] = Inl (VarIntTooLong 5)"
  "read_varint_slice [0x80, 0x80, 0x80, 0x80, 0x80, 0x01] = Inl (VarIntTooLong 5)"
  "read_varlong (replicate 11 0x80) = Inl (VarIntTooLong 10)" "read_varint [] = Inl UnexpectedEof"
  by code_simp+

subsection \<open>NBT\<close>

text \<open>The numbering of the tags.\<close>

definition tag_id_numbering :: "(byte \<times> tag_id) list" where
  "tag_id_numbering =
     [(0, Id_End), (1, Id_Byte), (2, Id_Short), (3, Id_Int), (4, Id_Long), (5, Id_Float), (6, Id_Double),
      (7, Id_ByteArray), (8, Id_String), (9, Id_List), (10, Id_Compound), (11, Id_IntArray), (12, Id_LongArray)]"

lemma tag_ids_match:
  "list_all (\<lambda>(b, i). tag_id_try_from b = Inr i \<and> tag_id_code i = b) tag_id_numbering"
  "list_all (\<lambda>b. tag_id_try_from b = Inl (UnknownTag b)) [13, 14, 200, 255]"
  by code_simp+

text \<open>The table names every tag, once, in the order of the numbers.\<close>

lemma tag_id_numbering_complete:
  "map snd tag_id_numbering = Enum.enum" "map (unat \<circ> fst) tag_id_numbering = [0..<13]"
  by code_simp+

text \<open>Documents and their network forms.\<close>

definition nbt_layouts :: "(nbt_compound \<times> byte list) list" where
  "nbt_layouts =
     [(compound_new, [0x0a, 0x00]),
      (compound_insert (ascii ''num'') (Nbt_Compound (compound_insert (ascii ''a'') (Nbt_Int 123) compound_new))
         compound_new,
       [0x0a, 0x0a, 0x00, 0x03, 0x6e, 0x75, 0x6d, 0x03, 0x00, 0x01, 0x61, 0x00, 0x00, 0x00, 0x7b, 0x00, 0x00]),
      (compound_insert (ascii ''l'') (Nbt_Long 0x0102030405060708)
         (compound_insert (ascii ''s'') (Nbt_Short 0x0102) compound_new),
       [0x0a, 0x02, 0x00, 0x01, 0x73, 0x01, 0x02,
        0x04, 0x00, 0x01, 0x6c, 0x01, 0x02, 0x03, 0x04, 0x05, 0x06, 0x07, 0x08, 0x00]),
      (compound_insert (ascii ''l'') (Nbt_List list_empty) compound_new,
       [0x0a, 0x09, 0x00, 0x01, 0x6c, 0x00, 0x00, 0x00, 0x00, 0x00, 0x00]),
      (compound_insert (ascii ''l'') (Nbt_List (NbtList Id_Byte [Nbt_Byte 7, Nbt_Byte 8])) compound_new,
       [0x0a, 0x09, 0x00, 0x01, 0x6c, 0x01, 0x00, 0x00, 0x00, 0x02, 0x07, 0x08, 0x00]),
      (compound_insert (ascii ''i'') (Nbt_IntArray [1, - 1]) compound_new,
       [0x0a, 0x0b, 0x00, 0x01, 0x69, 0x00, 0x00, 0x00, 0x02, 0x00, 0x00, 0x00, 0x01, 0xff, 0xff, 0xff, 0xff, 0x00])]"

text \<open>The document with every type of tag; a float is its bit pattern.\<close>

definition nbt_sample :: nbt_compound where
  "nbt_sample = compound_macro
     [(ascii ''byte'', Nbt_Byte 1), (ascii ''short'', Nbt_Short (- 2)), (ascii ''int'', Nbt_Int 3),
      (ascii ''long'', Nbt_Long (- 4)), (ascii ''float'', Nbt_Float 0x3FC00000),
      (ascii ''double'', Nbt_Double 0xC004000000000000), (ascii ''bytes'', Nbt_ByteArray [1, 2, 3]),
      (ascii ''string'', Nbt_String (ascii ''hello'')),
      (ascii ''list'', Nbt_List (NbtList Id_Int [Nbt_Int 1, Nbt_Int 2])),
      (ascii ''empty_list'', Nbt_List list_empty),
      (ascii ''compound'', Nbt_Compound (compound_macro [(ascii ''nested'', Nbt_Byte 1)])),
      (ascii ''ints'', Nbt_IntArray [1, - 1]), (ascii ''longs'', Nbt_LongArray [1, - 1])]"

text \<open>Malformed documents and the errors they are refused with.\<close>

definition nbt_malformed :: "(byte list \<times> nbt_error) list" where
  "nbt_malformed =
     [([0x03, 0x00, 0x00, 0x00, 0x01], RootNotCompound Id_Int),
      ([0x0a, 0x7f, 0x00, 0x01, 0x78], UnknownTag 0x7f),
      ([0x0a, 0x0b, 0x00, 0x01, 0x61, 0xff, 0xff, 0xff, 0xff], Nbt_NegativeLength (- 1)),
      ([0x0a, 0x0b, 0x00, 0x01, 0x61, 0x77, 0x35, 0x94, 0x00], LengthExceedsInput 8000000000 0),
      ([0x0a, 0x09, 0x00, 0x01, 0x61, 0x0a, 0x77, 0x35, 0x94, 0x00], LengthExceedsInput 2000000000 0),
      ([0x0a, 0x09, 0x00, 0x01, 0x61, 0x00, 0x00, 0x00, 0x00, 0x03], InvalidListElementType Id_End),
      ([0x0a, 0x08, 0x00, 0x01, 0x61, 0x00, 0x02, 0xff, 0xfe], Nbt_InvalidUtf8 \<lparr>valid_up_to = 0, error_len = Some 1\<rparr>)]"

lemma nbt_layouts_written: "list_all (\<lambda>(c, bs). write_network_root c = Inr bs) nbt_layouts"
  by (simp add: nbt_layouts_def write_network_root_def write_compound_body.simps write_payload.simps
      write_nbt_string_def array_len_def MAX_DEPTH_def compound_insert_def compound_new_def list_empty_def
      ascii_def eval_simps)
     code_simp

lemma nbt_layouts_ok: "list_all (\<lambda>(c, bs). nbt_doc_ok c) nbt_layouts"
  by (simp add: nbt_layouts_def nbt_doc_ok_def compound_insert_def compound_new_def list_empty_def
      MAX_TOTAL_NODES_def ascii_def) 

lemma nbt_layouts_match:
  "list_all (\<lambda>(c, bs). write_network_root c = Inr bs \<and> read_network_root bs = Inr (c, [])) nbt_layouts"
  using nbt_layouts_written nbt_layouts_ok read_network_root_write [where rest = "[]"]
  by (fastforce simp: list_all_iff)

lemma nbt_sample_ok: "nbt_doc_ok nbt_sample" "\<exists>bs. write_network_root nbt_sample = Inr bs"
  unfolding write_network_root_ok
  by (simp_all add: nbt_sample_def compound_macro_def compound_insert_def compound_new_def nbt_doc_ok_def
      list_empty_def MAX_TOTAL_NODES_def MAX_DEPTH_def ascii_def)

text \<open>It round trips, and fields that follow it are left for the next decoder.\<close>

lemma nbt_sample_roundtrip:
  "\<exists>bs. write_network_root nbt_sample = Inr bs \<and>
     read_network_root (bs @ [0xAB, 0xCD]) = Inr (nbt_sample, [0xAB, 0xCD])"
  using nbt_sample_ok read_network_root_write by blast

lemma nbt_malformed_refused: "list_all (\<lambda>(bs, e). read_network_root bs = Inl e) nbt_malformed"
proof -
  have "from_utf8 [255, 254] = Inl \<lparr>valid_up_to = 0, error_len = Some 1\<rparr>"
    by code_simp
  then show ?thesis
    by (simp add: nbt_malformed_def read_network_root_def read_tag_id_def tag_id_try_from_def MAX_DEPTH_def
        MAX_TOTAL_NODES_def
        read_compound_body.simps read_entries.simps read_payload.simps read_nbt_string_def read_fixed_def
        read_length_def get_be_def from_be_bytes_def checked_mul_def USIZE_MAX_def usize_try_from_i32_def)
qed

subsection \<open>Fields and packets\<close>

definition handshake_sample :: handshake where
  "handshake_sample =
     \<lparr>protocol_version = 776, server_address = ascii ''localhost'', server_port = 25565, next_state = NS_Status\<rparr>"

definition handshake_layout :: "byte list" where
  "handshake_layout =
     [0x88, 0x06, 0x09, 0x6c, 0x6f, 0x63, 0x61, 0x6c, 0x68, 0x6f, 0x73, 0x74, 0x63, 0xdd, 0x01]"

lemma handshake_layout_match:
  "encode_body Handshake handshake_sample = (handshake_layout, Inr ())"
  "decode_body Handshake handshake_layout = Inr (handshake_sample, [])"
  "codec_encode deflate Handshake codec_new handshake_sample =
     (Inr (), codec_new\<lparr>scratch := 0 # handshake_layout\<rparr>, 16 # 0 # handshake_layout)"
proof -
  show e: "encode_body Handshake handshake_sample = (handshake_layout, Inr ())"
    by (simp add: Handshake_def handshake_sample_def handshake_layout_def write_string_def write_u16_def
        write_varint_def write_leb.simps PAYLOAD_MASK_def CONTINUATION_BIT_def i32_of_usize_def ascii_def eval_simps)
  have ok: "handshake_ok handshake_sample"
    by (simp add: handshake_ok_def handshake_sample_def string_ok_def ascii_def MAX_SERVER_ADDRESS_CHARS_def
        MAX_BYTES_PER_CHAR_def)
  from Handshake.rd_wr_exact [OF ok] show "decode_body Handshake handshake_layout = Inr (handshake_sample, [])"
    by (simp add: e)
  show "codec_encode deflate Handshake codec_new handshake_sample =
      (Inr (), codec_new\<lparr>scratch := 0 # handshake_layout\<rparr>, 16 # 0 # handshake_layout)"
    unfolding codec_encode_def e
    by (simp add: codec_new_def write_varint_def write_leb.simps PAYLOAD_MASK_def Handshake_def Let_def
        handshake_layout_def i32_of_usize_def MAX_PACKET_SIZE_def)
qed

text \<open>Frames refused on their length prefix alone, and compressed frames refused on their header.\<close>

definition bad_prefixes :: "(byte list \<times> protocol_error) list" where
  "bad_prefixes =
     [([0x80, 0x80, 0x80, 0x01], FrameTooLarge 2097152 MAX_PACKET_SIZE),
      ([0xff, 0xff, 0xff, 0xff, 0x0f], NegativeLength (- 1))]"

definition bad_headers :: "(byte list \<times> protocol_error) list" where
  "bad_headers =
     [([0x07, 0x80, 0x80, 0x80, 0x01, 0x78, 0x9c, 0x00], FrameTooLarge 2097152 MAX_PACKET_SIZE),
      ([0x04, 0x0a, 0x78, 0x9c, 0x00], CompressedBelowThreshold 10 256),
      ([0x08, 0xff, 0xff, 0xff, 0xff, 0x0f, 0x78, 0x9c, 0x00], NegativeLength (- 1))]"

lemmas frame_eval = codec_decode_def decompress_def set_compression_def codec_new_def read_varint_slice_def
  slice_leb.simps read_varint_def read_leb.simps PAYLOAD_MASK_def CONTINUATION_BIT_def MAX_VARINT_LEN_def
  MAX_PACKET_SIZE_def usize_try_from_i32_def usize_of_i32_def

lemma bad_prefixes_refused: "list_all (\<lambda>(bs, e). fst (codec_decode inflate codec_new bs) = Inl e) bad_prefixes"
  by (simp add: bad_prefixes_def frame_eval)

lemma bad_headers_refused:
  "list_all (\<lambda>(bs, e). fst (codec_decode inflate (set_compression 256 codec_new) bs) = Inl e) bad_headers"
  by (simp add: bad_headers_def frame_eval)

subsection \<open>Names\<close>

definition valid_usernames :: "rstring list" where
  "valid_usernames = map ascii [''a'', ''Notch'', ''Steve_123'', ''________________'']"

definition invalid_usernames :: "rstring list" where
  "invalid_usernames = map ascii [[], ''seventeen_chars_x'', ''has space'', ''hy-phen''] @ [[0xC3, 0xA9]]"

lemma usernames_match:
  "list_all (\<lambda>n. validate_username n = Inr ()) valid_usernames"
  "list_all (\<lambda>n. validate_username n = Inl (InvalidUsername n)) invalid_usernames"
  by code_simp+

end
