(* ===== verification/NbtTests.thy ===== *)
theory NbtTests
  imports NbtAlloc Vectors
begin

text \<open>
  The unit tests of \<open>crates/nbt/src\<close> beyond the tables of \<open>Vectors\<close>, as propositions about the model: each
  definition is what the test of that name asserts, and is shown to hold. A test that builds a document
  of a given size is stated at that size.
\<close>

subsection \<open>\<open>tag.rs\<close>\<close>

definition every_tag_reports_its_wire_id :: bool where
  "every_tag_reports_its_wire_id \<longleftrightarrow>
     list_all (\<lambda>(tag, expected). nbt_id tag = expected)
       [(Nbt_Byte 1, Id_Byte), (Nbt_Short 1, Id_Short), (Nbt_Int 1, Id_Int), (Nbt_Long 1, Id_Long),
        (Nbt_Float 0x3F800000, Id_Float), (Nbt_Double 0x3FF0000000000000, Id_Double),
        (Nbt_ByteArray [], Id_ByteArray), (Nbt_String [], Id_String), (Nbt_List list_empty, Id_List),
        (Nbt_Compound compound_new, Id_Compound), (Nbt_IntArray [], Id_IntArray), (Nbt_LongArray [], Id_LongArray)]"

definition compounds_preserve_insertion_order :: bool where
  "compounds_preserve_insertion_order \<longleftrightarrow>
     (let compound = compound_new;
          compound = compound_insert (ascii ''zebra'') (Nbt_Int 1) compound;
          compound = compound_insert (ascii ''apple'') (Nbt_Int 2) compound;
          compound = compound_insert (ascii ''mango'') (Nbt_Int 3) compound
      in map fst (compound_iter compound) = map ascii [''zebra'', ''apple'', ''mango''])"

definition inserting_an_existing_key_replaces_it_in_place :: bool where
  "inserting_an_existing_key_replaces_it_in_place \<longleftrightarrow>
     (let compound = compound_new;
          compound = compound_insert (ascii ''a'') (Nbt_Int 1) compound;
          compound = compound_insert (ascii ''b'') (Nbt_Int 2) compound;
          compound = compound_insert (ascii ''a'') (Nbt_Int 99) compound
      in compound_len compound = 2 \<and> compound_get compound (ascii ''a'') = Some (Nbt_Int 99) \<and>
         map fst (compound_iter compound) = map ascii [''a'', ''b''])"

definition compound_lookup_finds_and_misses :: bool where
  "compound_lookup_finds_and_misses \<longleftrightarrow>
     (let compound = compound_insert (ascii ''present'') (Nbt_String (ascii ''yes'')) compound_new
      in compound_get compound (ascii ''present'') = Some (Nbt_String (ascii ''yes'')) \<and>
         compound_get compound (ascii ''absent'') = None)"

definition an_empty_list_declares_the_end_type :: bool where
  "an_empty_list_declares_the_end_type \<longleftrightarrow>
     (let l = list_empty in element_type l = Id_End \<and> list_is_empty l)"

definition a_homogeneous_list_infers_its_element_type :: bool where
  "a_homogeneous_list_infers_its_element_type \<longleftrightarrow>
     (case list_new [Nbt_Int 1, Nbt_Int 2] of
        Inl _ \<Rightarrow> False
      | Inr l \<Rightarrow> element_type l = Id_Int \<and> list_len l = 2)"

definition a_heterogeneous_list_cannot_be_constructed :: bool where
  "a_heterogeneous_list_cannot_be_constructed \<longleftrightarrow>
     list_new [Nbt_Int 1, Nbt_String (ascii ''x'')] = Inl (HeterogeneousList Id_Int Id_String)"

lemma tag_tests_pass:
  "every_tag_reports_its_wire_id" "compounds_preserve_insertion_order"
  "inserting_an_existing_key_replaces_it_in_place" "compound_lookup_finds_and_misses"
  "an_empty_list_declares_the_end_type" "a_homogeneous_list_infers_its_element_type"
  "a_heterogeneous_list_cannot_be_constructed"
  by code_simp+

subsection \<open>\<open>macros.rs\<close>\<close>

definition compound_builds_an_equivalent_value :: bool where
  "compound_builds_an_equivalent_value \<longleftrightarrow>
     (let built = compound_macro [(ascii ''name'', Nbt_String (ascii ''minecraft:overworld'')), (ascii ''id'', Nbt_Int 0)];
          expected = compound_insert (ascii ''id'') (Nbt_Int 0)
            (compound_insert (ascii ''name'') (Nbt_String (ascii ''minecraft:overworld'')) compound_new)
      in built = expected)"

definition compound_nests :: bool where
  "compound_nests \<longleftrightarrow>
     (let built = compound_macro [(ascii ''element'', Nbt_Compound (compound_macro
            [(ascii ''has_skylight'', Nbt_Byte 1), (ascii ''height'', Nbt_Int 384)]))]
      in case compound_get built (ascii ''element'') of
           Some (Nbt_Compound inner) \<Rightarrow> compound_get inner (ascii ''height'') = Some (Nbt_Int 384)
         | _ \<Rightarrow> False)"

definition an_empty_compound_is_valid :: bool where
  "an_empty_compound_is_valid \<longleftrightarrow> compound_macro [] = compound_new"

definition compound_accepts_a_trailing_comma :: bool where
  "compound_accepts_a_trailing_comma \<longleftrightarrow> compound_len (compound_macro [(ascii ''a'', Nbt_Int 1)]) = 1"

definition list_builds_a_homogeneous_list :: bool where
  "list_builds_a_homogeneous_list \<longleftrightarrow>
     (case list_macro [Nbt_Int 1, Nbt_Int 2, Nbt_Int 3] of
        Inl _ \<Rightarrow> False
      | Inr built \<Rightarrow> list_len built = 3 \<and> items built ! 0 = Nbt_Int 1)"

definition an_empty_list_macro_is_valid :: bool where
  "an_empty_list_macro_is_valid \<longleftrightarrow> (case list_macro [] of Inl _ \<Rightarrow> False | Inr built \<Rightarrow> list_is_empty built)"

definition list_rejects_mixed_types :: bool where
  "list_rejects_mixed_types \<longleftrightarrow> isl (list_macro [Nbt_Int 1, Nbt_String (ascii ''two'')])"

lemma macro_tests_pass:
  "compound_builds_an_equivalent_value" "compound_nests" "an_empty_compound_is_valid"
  "compound_accepts_a_trailing_comma" "list_builds_a_homogeneous_list" "an_empty_list_macro_is_valid"
  "list_rejects_mixed_types"
  by code_simp+

subsection \<open>\<open>write.rs\<close>\<close>

definition a_network_root_omits_the_name :: bool where
  "a_network_root_omits_the_name \<longleftrightarrow> write_network_root compound_new = Inr [0x0a, 0x00]"

definition a_named_root_includes_the_name :: bool where
  "a_named_root_includes_the_name \<longleftrightarrow>
     write_named_root (ascii ''hi'') compound_new = Inr [0x0a, 0x00, 0x02, 0x68, 0x69, 0x00]"

definition a_string_longer_than_the_length_prefix_allows_is_rejected :: bool where
  "a_string_longer_than_the_length_prefix_allows_is_rejected \<longleftrightarrow>
     write_network_root (compound_insert (ascii ''s'') (Nbt_String (replicate 65536 0x78)) compound_new) =
       Inl (Nbt_StringTooLong 65536)"

definition a_name_longer_than_the_length_prefix_allows_is_rejected :: bool where
  "a_name_longer_than_the_length_prefix_allows_is_rejected \<longleftrightarrow>
     (\<exists>len. write_network_root (compound_insert (replicate 70000 0x78) (Nbt_Int 1) compound_new) =
       Inl (Nbt_StringTooLong len))"

text \<open>\<open>for _ in 0..n \{ let mut wrapper = ..; wrapper.insert("x", root); root = wrapper; \}\<close>\<close>

definition wrapped :: "nat \<Rightarrow> nbt_compound" where
  "wrapped n = ((\<lambda>root. compound_insert (ascii ''x'') (Nbt_Compound root) compound_new) ^^ n)
     (compound_insert (ascii ''leaf'') (Nbt_Byte 1) compound_new)"

definition writing_beyond_the_depth_limit_is_rejected :: bool where
  "writing_beyond_the_depth_limit_is_rejected \<longleftrightarrow>
     write_network_root (wrapped (MAX_DEPTH + 10)) = Inl (DepthExceeded MAX_DEPTH)"

definition writing_within_the_depth_limit_succeeds :: bool where
  "writing_within_the_depth_limit_succeeds \<longleftrightarrow> (\<exists>bs. write_network_root (wrapped (MAX_DEPTH - 2)) = Inr bs)"

lemma wrapped_simps:
  "wrapped 0 = NbtCompound [(ascii ''leaf'', Nbt_Byte 1)]"
  "wrapped (Suc n) = NbtCompound [(ascii ''x'', Nbt_Compound (wrapped n))]"
  by (simp_all add: wrapped_def compound_insert_def compound_new_def)

lemma wrapped_nesting: "compound_nesting (wrapped n) = Suc n" "compound_fits (wrapped n)"
  by (induction n) (simp_all add: wrapped_simps ascii_def)

lemma write_wrapped:
  "MAX_DEPTH < depth + n \<Longrightarrow> write_compound_body (wrapped n) depth = Inl (DepthExceeded MAX_DEPTH)"
proof (induction n arbitrary: depth)
  case (Suc n)
  then show ?case
    by (simp add: wrapped_simps write_compound_body.simps write_payload.simps write_nbt_string_def ascii_def)
qed (simp add: write_compound_body.simps)

lemma write_tests_pass:
  "a_network_root_omits_the_name" "a_named_root_includes_the_name"
  "a_string_longer_than_the_length_prefix_allows_is_rejected"
  "a_name_longer_than_the_length_prefix_allows_is_rejected"
  "writing_beyond_the_depth_limit_is_rejected" "writing_within_the_depth_limit_succeeds"
proof -
  note sizes = write_network_root_def write_named_root_def write_compound_body.simps write_payload.simps
    write_nbt_string_def MAX_DEPTH_def compound_insert_def compound_new_def
  show "a_network_root_omits_the_name" "a_named_root_includes_the_name"
      "a_string_longer_than_the_length_prefix_allows_is_rejected"
      "a_name_longer_than_the_length_prefix_allows_is_rejected"
    by (simp_all add: a_network_root_omits_the_name_def a_named_root_includes_the_name_def
        a_string_longer_than_the_length_prefix_allows_is_rejected_def
        a_name_longer_than_the_length_prefix_allows_is_rejected_def sizes ascii_def eval_simps)
  show "writing_beyond_the_depth_limit_is_rejected"
    by (simp add: writing_beyond_the_depth_limit_is_rejected_def write_network_root_def write_wrapped)
  show "writing_within_the_depth_limit_succeeds"
    unfolding writing_within_the_depth_limit_succeeds_def write_network_root_ok
    by (simp add: wrapped_nesting) (simp add: MAX_DEPTH_def)
qed

subsection \<open>\<open>read.rs\<close>\<close>

text \<open>The document of \<open>sample()\<close> is \<open>nbt_sample\<close>.\<close>

definition every_tag_type_round_trips_as_a_value :: bool where
  "every_tag_type_round_trips_as_a_value \<longleftrightarrow>
     (case write_network_root nbt_sample of
        Inl _ \<Rightarrow> False
      | Inr buf \<Rightarrow> read_network_root buf = Inr (nbt_sample, []))"

definition every_tag_type_round_trips_as_bytes :: bool where
  "every_tag_type_round_trips_as_bytes \<longleftrightarrow>
     (case write_network_root nbt_sample of
        Inl _ \<Rightarrow> False
      | Inr buf \<Rightarrow>
          (case read_network_root buf of
             Inl _ \<Rightarrow> False
           | Inr (decoded, _) \<Rightarrow> write_network_root decoded = Inr buf))"

definition a_named_root_round_trips_with_its_name :: bool where
  "a_named_root_round_trips_with_its_name \<longleftrightarrow>
     (case write_named_root (ascii ''root'') nbt_sample of
        Inl _ \<Rightarrow> False
      | Inr buf \<Rightarrow>
          (case read_named_root buf of
             Inl _ \<Rightarrow> False
           | Inr ((name, decoded), _) \<Rightarrow> name = ascii ''root'' \<and> decoded = nbt_sample))"

definition reading_a_named_document_as_a_network_one_silently_misreads_it :: bool where
  "reading_a_named_document_as_a_network_one_silently_misreads_it \<longleftrightarrow>
     (case write_named_root (ascii ''root'') nbt_sample of
        Inl _ \<Rightarrow> False
      | Inr buf \<Rightarrow>
          (case read_network_root buf of
             Inl _ \<Rightarrow> False
           | Inr (misread, _) \<Rightarrow> misread \<noteq> nbt_sample \<and> compound_is_empty misread))"

definition an_empty_compound_round_trips :: bool where
  "an_empty_compound_round_trips \<longleftrightarrow>
     (case write_network_root compound_new of
        Inl _ \<Rightarrow> False
      | Inr buf \<Rightarrow> (\<exists>rest. read_network_root buf = Inr (compound_new, rest)))"

definition an_absent_optional_document_is_none :: bool where
  "an_absent_optional_document_is_none \<longleftrightarrow> (\<exists>rest. read_optional_network_root [0x00] = Inr (None, rest))"

definition a_present_optional_document_is_some :: bool where
  "a_present_optional_document_is_some \<longleftrightarrow>
     (case write_network_root nbt_sample of
        Inl _ \<Rightarrow> False
      | Inr buf \<Rightarrow> (\<exists>rest. read_optional_network_root buf = Inr (Some nbt_sample, rest)))"

definition a_document_may_be_followed_by_further_fields :: bool where
  "a_document_may_be_followed_by_further_fields \<longleftrightarrow>
     (case write_network_root nbt_sample of
        Inl _ \<Rightarrow> False
      | Inr buf \<Rightarrow> read_network_root (buf @ [0xAB, 0xCD]) = Inr (nbt_sample, [0xAB, 0xCD]))"

definition truncation_at_any_point_is_rejected :: bool where
  "truncation_at_any_point_is_rejected \<longleftrightarrow>
     (case write_network_root nbt_sample of
        Inl _ \<Rightarrow> False
      | Inr buf \<Rightarrow> list_all (\<lambda>cut. isl (read_network_root (take cut buf))) [1..<length buf])"

lemma nbt_sample_named_ok: "\<exists>bs. write_named_root (ascii ''root'') nbt_sample = Inr bs"
proof -
  obtain nbs where "write_nbt_string (ascii ''root'') = Inr nbs"
    by (simp add: write_nbt_string_def ascii_def)
  with nbt_sample_ok(2) show ?thesis
    by (auto simp: write_named_root_def write_network_root_def split: sum.splits)
qed

lemma read_roundtrip_tests_pass:
  "every_tag_type_round_trips_as_a_value" "every_tag_type_round_trips_as_bytes"
  "a_present_optional_document_is_some"
  "a_document_may_be_followed_by_further_fields" "truncation_at_any_point_is_rejected"
proof -
  from nbt_sample_ok(2) obtain buf where w: "write_network_root nbt_sample = Inr buf" by blast
  note r = network_nbt.dec_enc [OF w nbt_sample_ok(1)]
  show "every_tag_type_round_trips_as_a_value" "every_tag_type_round_trips_as_bytes"
      "a_document_may_be_followed_by_further_fields"
    using r [of "[]"] r [of "[0xAB, 0xCD]"]
    by (simp_all add: every_tag_type_round_trips_as_a_value_def every_tag_type_round_trips_as_bytes_def
        a_document_may_be_followed_by_further_fields_def w)
  show "a_present_optional_document_is_some"
    using r [of "[]"]
    by (auto simp: a_present_optional_document_is_some_def w read_network_root_def read_optional_network_root_def
        split: sum.splits tag_id.splits if_splits)
  have "\<exists>e. read_network_root (take cut buf) = Inl e" if "cut < length buf" for cut
  proof (rule network_nbt.truncated_rejected [OF w])
    show "strict_prefix (take cut buf) buf"
      using that by (simp add: strict_prefix_def take_is_prefix)
  qed (rule nbt_sample_ok(1))
  then show "truncation_at_any_point_is_rejected"
    by (fastforce simp: truncation_at_any_point_is_rejected_def w list_all_iff)
qed

lemma read_root_tests_pass:
  "a_named_root_round_trips_with_its_name" "reading_a_named_document_as_a_network_one_silently_misreads_it"
  "an_empty_compound_round_trips" "an_absent_optional_document_is_none"
proof -
  from nbt_sample_named_ok obtain buf where w: "write_named_root (ascii ''root'') nbt_sample = Inr buf" by blast
  have "utf8_valid (ascii ''root'')" by (simp add: ascii_def)
  then show "a_named_root_round_trips_with_its_name"
    using read_named_root_write [of "(ascii ''root'', nbt_sample)" buf "[]"] w nbt_sample_ok(1)
    by (simp add: a_named_root_round_trips_with_its_name_def write_named_doc_def named_doc_ok_def nbt_doc_ok_def)
  obtain rest where "read_network_root buf = Inr (compound_new, rest)"
    using nbt_named_read_as_network [OF w] by (auto simp: ascii_def)
  then show "reading_a_named_document_as_a_network_one_silently_misreads_it"
    by (simp add: reading_a_named_document_as_a_network_one_silently_misreads_it_def w)
       (simp add: compound_new_def compound_is_empty_def nbt_sample_def compound_macro_def compound_insert_def
          list_empty_def ascii_def)
  have "write_network_root compound_new = Inr [0x0a, 0x00]"
    using write_tests_pass(1) by (simp add: a_network_root_omits_the_name_def)
  moreover have "nbt_doc_ok compound_new" by (simp add: nbt_doc_ok_def compound_new_def)
  ultimately show "an_empty_compound_round_trips"
    using network_nbt.dec_enc [of compound_new "[0x0a, 0x00]" "[]"]
    by (auto simp: an_empty_compound_round_trips_def)
  show "an_absent_optional_document_is_none"
    using read_tag_id_code [of Id_End "[]"]
    by (simp add: an_absent_optional_document_is_none_def read_optional_network_root_def)
qed

subsection \<open>\<open>read.rs\<close>: the limits\<close>

text \<open>The bytes of a document with a list named \<open>l\<close> of \<open>n\<close> empty compounds, up to the end of the list.\<close>

definition list_doc :: "usize \<Rightarrow> byte list" where
  "list_doc n = 0x0A # 0x09 # 0 # 1 # 0x6C # 0x0A # to_be_bytes 4 (of_nat n :: i32) @ replicate n 0"

definition list_of_len :: "nbt_compound \<Rightarrow> usize \<Rightarrow> bool" where
  "list_of_len c n \<longleftrightarrow> (case compound_get c (ascii ''l'') of Some (Nbt_List l) \<Rightarrow> list_len l = n | _ \<Rightarrow> False)"

definition nesting_beyond_the_depth_limit_is_rejected :: bool where
  "nesting_beyond_the_depth_limit_is_rejected \<longleftrightarrow>
     read_network_root (0x0A # chain (MAX_DEPTH + 10)) = Inl (DepthExceeded MAX_DEPTH)"

definition duplicate_keys_are_rejected_not_silently_collapsed :: bool where
  "duplicate_keys_are_rejected_not_silently_collapsed \<longleftrightarrow>
     read_network_root (0x0A # concat (replicate 40000 [0x01, 0, 1, 0x6B, 1]) @ [0]) =
       Inl (DuplicateKey (ascii ''k''))"

definition a_document_exceeding_the_node_budget_is_rejected :: bool where
  "a_document_exceeding_the_node_budget_is_rejected \<longleftrightarrow>
     read_network_root (list_doc (MAX_TOTAL_NODES + 10)) = Inl (TooManyNodes MAX_TOTAL_NODES)"

definition a_document_within_the_node_budget_still_decodes :: bool where
  "a_document_within_the_node_budget_still_decodes \<longleftrightarrow>
     (case read_network_root (list_doc 1000 @ [0]) of
        Inl _ \<Rightarrow> False
      | Inr (decoded, _) \<Rightarrow> list_of_len decoded 1000)"

definition a_document_at_exactly_the_node_budget_decodes :: bool where
  "a_document_at_exactly_the_node_budget_decodes \<longleftrightarrow>
     (let element_count = MAX_TOTAL_NODES - 1 in
        case read_network_root (list_doc element_count @ [0]) of
          Inl _ \<Rightarrow> False
        | Inr (decoded, _) \<Rightarrow> list_of_len decoded element_count)"

definition a_document_one_node_over_the_budget_is_rejected :: bool where
  "a_document_one_node_over_the_budget_is_rejected \<longleftrightarrow>
     read_network_root (list_doc MAX_TOTAL_NODES) = Inl (TooManyNodes MAX_TOTAL_NODES)"

lemma read_one_char_name: "b < 0x80 \<Longrightarrow> read_nbt_string (0 # 1 # b # xs) = Inr ([b], xs)"
  using read_nbt_string_write [of "[b]" "[0, 1, b]" xs]
  by (simp add: write_nbt_string_def to_be_bytes_eval)

lemma read_empty_compounds:
  "depth < MAX_DEPTH \<Longrightarrow> k \<le> MAX_TOTAL_NODES \<Longrightarrow>
     read_items n (replicate n 0 @ rest) Id_Compound depth k =
       (if k + n \<le> MAX_TOTAL_NODES then Inr (replicate n (Nbt_Compound compound_new), rest, k + n)
        else Inl (TooManyNodes MAX_TOTAL_NODES))"
proof (induction n arbitrary: k)
  case (Suc n)
  have "read_payload (0 # src) Id_Compound depth k =
      (if k < MAX_TOTAL_NODES then Inr (Nbt_Compound compound_new, src, k + 1)
       else Inl (TooManyNodes MAX_TOTAL_NODES))" for src
    using Suc.prems(1) by (simp add: read_payload.simps read_compound_body.simps read_entries_end compound_new_def)
  with Suc.IH [of "k + 1"] Suc.prems show ?case by simp
qed simp

lemma read_list_doc:
  assumes "n < 2 ^ 31"
  shows "read_network_root (list_doc n @ rest) =
    (if n < MAX_TOTAL_NODES then
       (case read_entries rest 1 (n + 1)
           (NbtCompound [([0x6C], Nbt_List (NbtList Id_Compound (replicate n (Nbt_Compound compound_new))))]) of
          Inl e \<Rightarrow> Inl e
        | Inr (c, src, _) \<Rightarrow> Inr (c, src))
     else Inl (TooManyNodes MAX_TOTAL_NODES))"
proof -
  have tags: "read_tag_id (0x0A # xs) = Inr (Id_Compound, xs)" "read_tag_id (0x09 # xs) = Inr (Id_List, xs)" for xs
    using read_tag_id_code [of Id_Compound xs] read_tag_id_code [of Id_List xs] by simp_all
  have name: "read_nbt_string (0 # 1 # 0x6C # xs) = Inr ([0x6C], xs)" for xs
    by (simp add: read_one_char_name)
  have "array_len n = Inr (of_nat n)" using assms by (simp add: array_len_def)
  then have len: "read_length (min_element_size Id_Compound) (to_be_bytes 4 (of_nat n :: i32) @ replicate n 0 @ rest) =
      Inr (n, replicate n 0 @ rest)"
    by (rule read_length_write) simp_all
  have depth: "1 < MAX_DEPTH" "2 < MAX_DEPTH" "0 < MAX_TOTAL_NODES" "1 \<le> MAX_TOTAL_NODES"
    by (simp_all add: MAX_DEPTH_def MAX_TOTAL_NODES_def)
  show ?thesis
    using depth read_empty_compounds [OF depth(2,4), of n rest] len
    by (simp add: read_network_root_def list_doc_def tags read_compound_body.simps [of "_ # _"]
        read_entries.simps [of "_ # _"] name read_payload.simps list_from_parts_def compound_push_def
        compound_new_def numeral_2_eq_2 split: sum.splits)
qed

lemma read_list_doc_closed:
  assumes "n < MAX_TOTAL_NODES"
  shows "\<exists>c. read_network_root (list_doc n @ [0]) = Inr (c, []) \<and> list_of_len c n"
proof -
  have "n < 2 ^ 31" using assms by (simp add: MAX_TOTAL_NODES_def)
  then show ?thesis
    using assms
    by (simp add: read_list_doc read_entries_end list_of_len_def compound_get_def ascii_def list_len_def)
qed

lemma read_deep_chain:
  "k + n < MAX_TOTAL_NODES \<Longrightarrow> MAX_DEPTH < depth + n \<Longrightarrow>
     read_compound_body (chain n @ src) depth k = Inl (DepthExceeded MAX_DEPTH)"
proof (induction n arbitrary: depth k)
  case (Suc n)
  then show ?case
    by (cases "depth \<le> MAX_DEPTH") (simp_all add: read_chain_step, simp add: read_compound_body.simps)
qed (simp add: read_compound_body.simps)

lemma read_same_keys:
  "k + n \<le> MAX_TOTAL_NODES \<Longrightarrow> depth \<le> MAX_DEPTH \<Longrightarrow>
     read_entries (concat (replicate n [0x01, 0, 1, 0x6B, 1]) @ src) depth k (NbtCompound es) =
       read_entries src depth (k + n) (NbtCompound (es @ replicate n ([0x6B], Nbt_Byte 1)))"
proof (induction n arbitrary: k es)
  case (Suc n)
  have "read_tag_id (0x01 # xs) = Inr (Id_Byte, xs)" for xs
    using read_tag_id_code [of Id_Byte xs] by simp
  moreover have "read_nbt_string (0 # 1 # 0x6B # xs) = Inr ([0x6B], xs)" for xs
    by (simp add: read_one_char_name)
  moreover have "read_fixed 1 Nbt_Byte (1 # xs) n = Inr (Nbt_Byte 1, xs, n)" for xs n
    by (simp add: read_fixed_def get_be_def from_be_bytes_def)
  ultimately show ?case
    using Suc
    by (simp add: read_entries.simps [of "_ # _"] read_payload.simps compound_push_def)
qed simp

lemma same_keys_refused:
  "reject_duplicate_keys (NbtCompound (replicate (Suc (Suc n)) (k, v))) = Inl (DuplicateKey k)"
proof -
  have "sort (replicate (Suc (Suc n)) k) = replicate (Suc (Suc n)) k"
    by (intro sorted_sort_id) simp
  then show ?thesis
    by (simp add: reject_duplicate_keys_def compound_names_def compound_iter_def compound_len_def
        del: replicate_Suc) (simp only: replicate_Suc first_adjacent_dup.simps, simp)
qed

lemma read_limit_tests_pass:
  "nesting_beyond_the_depth_limit_is_rejected" "duplicate_keys_are_rejected_not_silently_collapsed"
  "a_document_exceeding_the_node_budget_is_rejected" "a_document_within_the_node_budget_still_decodes"
  "a_document_at_exactly_the_node_budget_decodes" "a_document_one_node_over_the_budget_is_rejected"
proof -
  have root: "read_tag_id (0x0A # xs) = Inr (Id_Compound, xs)" for xs
    using read_tag_id_code [of Id_Compound xs] by simp
  have "0 + (MAX_DEPTH + 10) < MAX_TOTAL_NODES" by (simp add: MAX_DEPTH_def MAX_TOTAL_NODES_def)
  from read_deep_chain [OF this, of 1 "[]"] show "nesting_beyond_the_depth_limit_is_rejected"
    by (simp add: nesting_beyond_the_depth_limit_is_rejected_def read_network_root_def root)
  have "read_tag_id [0] = Inr (Id_End, [])" using read_tag_id_code [of Id_End "[]"] by simp
  moreover have "Suc (Suc 39998) = (40000 :: nat)" by simp
  then have "reject_duplicate_keys (NbtCompound (replicate 40000 (k, v))) = Inl (DuplicateKey k)" for k v
    using same_keys_refused [of 39998 k v] by (simp only:)
  ultimately show "duplicate_keys_are_rejected_not_silently_collapsed"
    using read_same_keys [of 0 40000 1 "[0]" "[]"]
    by (simp add: duplicate_keys_are_rejected_not_silently_collapsed_def read_network_root_def root
        read_compound_body.simps compound_new_def MAX_DEPTH_def MAX_TOTAL_NODES_def
        read_entries.simps [of "[0]"] ascii_def)
  have small: "MAX_TOTAL_NODES + 10 < 2 ^ 31" "MAX_TOTAL_NODES < 2 ^ 31" "1000 < MAX_TOTAL_NODES"
      "MAX_TOTAL_NODES - 1 < MAX_TOTAL_NODES"
    by (simp_all add: MAX_TOTAL_NODES_def)
  show "a_document_exceeding_the_node_budget_is_rejected" "a_document_one_node_over_the_budget_is_rejected"
    using read_list_doc [OF small(1), of "[]"] read_list_doc [OF small(2), of "[]"]
    by (simp_all add: a_document_exceeding_the_node_budget_is_rejected_def
        a_document_one_node_over_the_budget_is_rejected_def)
  show "a_document_within_the_node_budget_still_decodes" "a_document_at_exactly_the_node_budget_decodes"
    using read_list_doc_closed [OF small(3)] read_list_doc_closed [OF small(4)]
    by (auto simp: a_document_within_the_node_budget_still_decodes_def
        a_document_at_exactly_the_node_budget_decodes_def Let_def)
qed

end
