(* ===== verification/ProtocolTests.thy ===== *)
theory ProtocolTests
  imports Vectors StatusParse
begin

text \<open>
  The unit tests of \<open>crates/protocol/src\<close> and of \<open>crates/net/src/state.rs\<close> beyond the tables of
  \<open>Vectors\<close>, as propositions about the model: each definition is what the test of that name asserts, and
  is shown to hold. A text outside ASCII is written as its UTF-8 bytes.
\<close>

subsection \<open>\<open>varint.rs\<close>\<close>

definition varint_slice_returns_none_on_partial_input :: bool where
  "varint_slice_returns_none_on_partial_input \<longleftrightarrow>
     (let full = [0xff, 0xff, 0xff, 0xff, 0x0f] in
        list_all (\<lambda>split. read_varint_slice (take split full) = Inr None) [0..<length full])"

definition varint_slice_ignores_trailing_bytes :: bool where
  "varint_slice_ignores_trailing_bytes \<longleftrightarrow> read_varint_slice [0x80, 0x01, 0xaa, 0xbb] = Inr (Some (128, 2))"

lemma varint_tests_pass: "varint_slice_returns_none_on_partial_input" "varint_slice_ignores_trailing_bytes"
  by code_simp+

subsection \<open>\<open>buf.rs\<close>\<close>

definition string_round_trips :: bool where
  "string_round_trips \<longleftrightarrow>
     list_all (\<lambda>v. read_string 255 (write_string v) = Inr (v, []))
       [[], ascii ''localhost'', ascii ''a much longer server address'',
        [0xc3, 0xbc, 0x6e, 0xc3, 0xaf, 0x63, 0xc3, 0xb6, 0x64, 0xc3, 0xa9, 0x20, 0xe2, 0x9c, 0x94]]"

definition string_is_length_prefixed_in_bytes_not_chars :: bool where
  "string_is_length_prefixed_in_bytes_not_chars \<longleftrightarrow> write_string [0xc3, 0xa9] = [0x02, 0xc3, 0xa9]"

definition string_rejects_declared_length_above_cap_before_allocating :: bool where
  "string_rejects_declared_length_above_cap_before_allocating \<longleftrightarrow>
     read_string 4 (write_varint 300) = Inl (StringTooLong 300 12)"

definition string_rejects_negative_length :: bool where
  "string_rejects_negative_length \<longleftrightarrow> read_string 255 (write_varint (- 1)) = Inl (NegativeLength (- 1))"

definition string_reports_eof_when_body_is_short :: bool where
  "string_reports_eof_when_body_is_short \<longleftrightarrow> read_string 255 [0x05, 0x61, 0x62] = Inl UnexpectedEof"

definition string_rejects_invalid_utf8 :: bool where
  "string_rejects_invalid_utf8 \<longleftrightarrow> (\<exists>e. read_string 255 [0x02, 0xff, 0xfe] = Inl (InvalidUtf8 e))"

definition u16_is_big_endian :: bool where
  "u16_is_big_endian \<longleftrightarrow>
     (let buf = write_u16 25565 in buf = [0x63, 0xdd] \<and> (\<exists>src. read_u16 buf = Inr (25565, src)))"

definition i64_is_big_endian_and_round_trips :: bool where
  "i64_is_big_endian_and_round_trips \<longleftrightarrow>
     list_all (\<lambda>v. length (write_i64 v) = 8 \<and> (\<exists>src. read_i64 (write_i64 v) = Inr (v, src)))
       [0, - 1, 0x7fffffffffffffff, 0x8000000000000000, 0x0123456789abcdef]"

definition fixed_width_reads_report_eof :: bool where
  "fixed_width_reads_report_eof \<longleftrightarrow>
     read_u16 [0x00] = Inl UnexpectedEof \<and> read_i64 [0x00, 0x01, 0x02] = Inl UnexpectedEof"

definition uuid_round_trips :: bool where
  "uuid_round_trips \<longleftrightarrow>
     list_all (\<lambda>v. length (write_uuid v) = 16 \<and> read_uuid (write_uuid v) = Inr (v, []))
       [0, - 1, 0x0123456789abcdef0123456789abcdef]"

definition uuid_is_big_endian :: bool where
  "uuid_is_big_endian \<longleftrightarrow> (let buf = write_uuid 1 in buf ! 15 = 0x01 \<and> buf ! 0 = 0x00)"

definition uuid_reports_eof_when_short :: bool where
  "uuid_reports_eof_when_short \<longleftrightarrow> read_uuid (replicate 15 0) = Inl UnexpectedEof"

definition prefixed_array_round_trips :: bool where
  "prefixed_array_round_trips \<longleftrightarrow>
     (let items = [1, 2, 3, 65535] in
        read_prefixed_array 16 read_u16 (write_prefixed_array items write_u16) = Inr (items, []))"

definition empty_prefixed_array_round_trips :: bool where
  "empty_prefixed_array_round_trips \<longleftrightarrow>
     (let buf = write_prefixed_array [] write_u16 in
        buf = [0x00] \<and> (\<exists>src. read_prefixed_array 16 read_u16 buf = Inr ([], src)))"

definition prefixed_array_rejects_a_count_above_the_cap_before_reserving :: bool where
  "prefixed_array_rejects_a_count_above_the_cap_before_reserving \<longleftrightarrow>
     read_prefixed_array 8 read_u16 (write_varint 5000) = Inl (ArrayTooLong 5000 8)"

definition prefixed_array_rejects_a_negative_count :: bool where
  "prefixed_array_rejects_a_negative_count \<longleftrightarrow>
     read_prefixed_array 8 read_u16 (write_varint (- 1)) = Inl (NegativeLength (- 1))"

definition prefixed_optional_round_trips_present_and_absent :: bool where
  "prefixed_optional_round_trips_present_and_absent \<longleftrightarrow>
     (let buf = write_prefixed_optional (Some 7) write_u16 in
        buf = [0x01, 0x00, 0x07] \<and> (\<exists>src. read_prefixed_optional read_u16 buf = Inr (Some 7, src))) \<and>
     (let buf = write_prefixed_optional None write_u16 in
        buf = [0x00] \<and> (\<exists>src. read_prefixed_optional read_u16 buf = Inr (None, src)))"

definition prefixed_optional_rejects_a_non_boolean_tag :: bool where
  "prefixed_optional_rejects_a_non_boolean_tag \<longleftrightarrow>
     read_prefixed_optional read_u16 [0x02] = Inl (InvalidBoolean 0x02)"

definition nbt_round_trips_through_the_buf_helpers :: bool where
  "nbt_round_trips_through_the_buf_helpers \<longleftrightarrow>
     (let document = compound_new;
          document = compound_insert (ascii ''id'') (Nbt_Int 7) document;
          document = compound_insert (ascii ''name'') (Nbt_String (ascii ''minecraft:overworld'')) document
      in case write_nbt document of
           Inl _ \<Rightarrow> False
         | Inr buf \<Rightarrow> read_nbt buf = Inr (document, []))"

definition nbt_uses_the_network_root_form :: bool where
  "nbt_uses_the_network_root_form \<longleftrightarrow> write_nbt compound_new = Inr [0x0a, 0x00]"

definition a_malformed_document_surfaces_as_a_protocol_error :: bool where
  "a_malformed_document_surfaces_as_a_protocol_error \<longleftrightarrow>
     (\<exists>e. read_nbt [0x03, 0x00, 0x00, 0x00, 0x01] = Inl (Nbt e))"

lemma string_tests_pass:
  "string_round_trips" "string_is_length_prefixed_in_bytes_not_chars"
  "string_rejects_declared_length_above_cap_before_allocating" "string_rejects_negative_length"
  "string_reports_eof_when_body_is_short" "string_rejects_invalid_utf8"
proof -
  have "utf8_valid [0xc3, 0xbc, 0x6e, 0xc3, 0xaf, 0x63, 0xc3, 0xb6, 0x64, 0xc3, 0xa9, 0x20, 0xe2, 0x9c, 0x94]"
    by code_simp
  then show "string_round_trips"
    by (simp add: string_round_trips_def string_field.rd_wr_exact string_ok_def MAX_BYTES_PER_CHAR_def ascii_def)
  show "string_is_length_prefixed_in_bytes_not_chars"
    unfolding string_is_length_prefixed_in_bytes_not_chars_def by code_simp
  show "string_rejects_declared_length_above_cap_before_allocating" "string_rejects_negative_length"
    using read_varint_write [of 300 "[]"] read_varint_write [of "- 1" "[]"]
    by (simp_all add: string_rejects_declared_length_above_cap_before_allocating_def
        string_rejects_negative_length_def read_string_def usize_try_from_i32_def saturating_mul_def
        MAX_BYTES_PER_CHAR_def USIZE_MAX_def)
  have "read_varint [0x05, 0x61, 0x62] = Inr (5, [0x61, 0x62])" "read_varint [0x02, 0xff, 0xfe] = Inr (2, [0xff, 0xfe])"
      "from_utf8 [0xff, 0xfe] = Inl \<lparr>valid_up_to = 0, error_len = Some 1\<rparr>"
    by code_simp+
  then show "string_reports_eof_when_body_is_short" "string_rejects_invalid_utf8"
    by (simp_all add: string_reports_eof_when_body_is_short_def string_rejects_invalid_utf8_def read_string_def
        usize_try_from_i32_def saturating_mul_def MAX_BYTES_PER_CHAR_def USIZE_MAX_def)
qed

lemma fixed_width_tests_pass:
  "u16_is_big_endian" "i64_is_big_endian_and_round_trips" "fixed_width_reads_report_eof"
  "uuid_round_trips" "uuid_is_big_endian" "uuid_reports_eof_when_short"
proof -
  have "write_u16 25565 = [0x63, 0xdd]" "write_uuid 1 ! 15 = 0x01" "write_uuid 1 ! 0 = 0x00"
    by code_simp+
  then show "u16_is_big_endian" "uuid_is_big_endian"
    using u16_field.rd_wr_exact [of 25565] by (auto simp: u16_is_big_endian_def uuid_is_big_endian_def)
  have "length (write_i64 v) = 8" "length (write_uuid u) = 16" for v u
    by (simp_all add: write_i64_def write_uuid_def)
  then show "i64_is_big_endian_and_round_trips" "uuid_round_trips"
    by (simp_all add: i64_is_big_endian_and_round_trips_def uuid_round_trips_def i64_field.rd_wr_exact
        uuid_field.rd_wr_exact)
  show "fixed_width_reads_report_eof" "uuid_reports_eof_when_short"
    by (simp_all add: fixed_width_reads_report_eof_def uuid_reports_eof_when_short_def read_u16_def read_i64_def
        read_uuid_def)
qed

lemma array_tests_pass:
  "prefixed_array_round_trips" "empty_prefixed_array_round_trips"
  "prefixed_array_rejects_a_count_above_the_cap_before_reserving" "prefixed_array_rejects_a_negative_count"
  "prefixed_optional_round_trips_present_and_absent" "prefixed_optional_rejects_a_non_boolean_tag"
proof -
  note arrays = field_codec.rd_wr_exact [OF u16_field.array_field]
  show "prefixed_array_round_trips"
    by (simp add: prefixed_array_round_trips_def arrays)
  have "write_prefixed_array [] write_u16 = [0x00]" "write_prefixed_optional (Some 7) write_u16 = [0x01, 0x00, 0x07]"
      "write_prefixed_optional None write_u16 = [0x00]"
    by code_simp+
  then show "empty_prefixed_array_round_trips" "prefixed_optional_round_trips_present_and_absent"
    using arrays [of "[]" 16] field_codec.rd_wr_exact [OF u16_field.optional_field, of "Some 7"]
      field_codec.rd_wr_exact [OF u16_field.optional_field, of None]
    by (auto simp: empty_prefixed_array_round_trips_def prefixed_optional_round_trips_present_and_absent_def)
  show "prefixed_array_rejects_a_count_above_the_cap_before_reserving" "prefixed_array_rejects_a_negative_count"
    using read_varint_write [of 5000 "[]"] read_varint_write [of "- 1" "[]"]
    by (simp_all add: prefixed_array_rejects_a_count_above_the_cap_before_reserving_def
        prefixed_array_rejects_a_negative_count_def read_prefixed_array_def usize_try_from_i32_def)
  show "prefixed_optional_rejects_a_non_boolean_tag"
    unfolding prefixed_optional_rejects_a_non_boolean_tag_def by code_simp
qed

lemma nbt_helper_tests_pass:
  "nbt_round_trips_through_the_buf_helpers" "nbt_uses_the_network_root_form"
  "a_malformed_document_surfaces_as_a_protocol_error"
proof -
  let ?document = "NbtCompound [(ascii ''id'', Nbt_Int 7), (ascii ''name'', Nbt_String (ascii ''minecraft:overworld''))]"
  have "compound_fits ?document \<and> compound_nesting ?document \<le> MAX_DEPTH" and ok: "nbt_doc_ok ?document"
    by (simp_all add: nbt_doc_ok_def MAX_DEPTH_def MAX_TOTAL_NODES_def ascii_def)
  then obtain buf where "write_network_root ?document = Inr buf"
    using write_network_root_ok by blast
  with network_nbt.dec_enc [OF this ok, of "[]"] show "nbt_round_trips_through_the_buf_helpers"
    by (simp add: nbt_round_trips_through_the_buf_helpers_def write_nbt_def read_nbt_def compound_insert_def
        compound_new_def ascii_def)
  show "nbt_uses_the_network_root_form" "a_malformed_document_surfaces_as_a_protocol_error"
    using nbt_layouts_written nbt_malformed_refused
    by (simp_all add: nbt_uses_the_network_root_form_def a_malformed_document_surfaces_as_a_protocol_error_def
        nbt_layouts_def nbt_malformed_def write_nbt_def read_nbt_def)
qed

subsection \<open>\<open>state.rs\<close>\<close>

definition connections_begin_in_handshaking :: bool where
  "connections_begin_in_handshaking \<longleftrightarrow> current state_new = Handshaking"

definition handshaking_moves_to_status_or_login :: bool where
  "handshaking_moves_to_status_or_login \<longleftrightarrow>
     list_all (\<lambda>target. case transition target state_new of
         Inl _ \<Rightarrow> False
       | Inr fsm \<Rightarrow> current fsm = target) [Status, Login]"

definition status_cannot_escalate_to_login :: bool where
  "status_cannot_escalate_to_login \<longleftrightarrow>
     (case transition Status state_new of
        Inl _ \<Rightarrow> False
      | Inr fsm \<Rightarrow> transition Login fsm = Inl (IllegalTransition Status Login) \<and> current fsm = Status)"

definition handshaking_cannot_skip_to_play_or_configuration :: bool where
  "handshaking_cannot_skip_to_play_or_configuration \<longleftrightarrow>
     list_all (\<lambda>target. case transition target state_new of Inl (IllegalTransition _ _) \<Rightarrow> True | _ \<Rightarrow> False)
       [Play, Configuration, Handshaking]"

definition status_request_may_be_skipped_entirely :: bool where
  "status_request_may_be_skipped_entirely \<longleftrightarrow>
     (case transition Status state_new of Inl _ \<Rightarrow> False | Inr fsm \<Rightarrow> \<not> status_request_seen fsm)"

definition duplicate_status_requests_are_rejected :: bool where
  "duplicate_status_requests_are_rejected \<longleftrightarrow>
     (case transition Status state_new of
        Inl _ \<Rightarrow> False
      | Inr fsm \<Rightarrow>
          (case mark_status_request_seen fsm of
             Inl _ \<Rightarrow> False
           | Inr fsm \<Rightarrow> status_request_seen fsm \<and> mark_status_request_seen fsm = Inl DuplicateStatusRequest))"

definition login_may_advance_to_configuration :: bool where
  "login_may_advance_to_configuration \<longleftrightarrow>
     (case transition Login state_new of
        Inl _ \<Rightarrow> False
      | Inr fsm \<Rightarrow>
          (case transition Configuration fsm of Inl _ \<Rightarrow> False | Inr fsm \<Rightarrow> current fsm = Configuration))"

definition configuration_is_terminal_in_this_milestone :: bool where
  "configuration_is_terminal_in_this_milestone \<longleftrightarrow>
     (case transition Login state_new of
        Inl _ \<Rightarrow> False
      | Inr fsm \<Rightarrow>
          (case transition Configuration fsm of
             Inl _ \<Rightarrow> False
           | Inr fsm \<Rightarrow> (case transition Play fsm of Inl (IllegalTransition _ _) \<Rightarrow> True | _ \<Rightarrow> False)))"

lemma state_tests_pass:
  "connections_begin_in_handshaking" "handshaking_moves_to_status_or_login" "status_cannot_escalate_to_login"
  "handshaking_cannot_skip_to_play_or_configuration" "status_request_may_be_skipped_entirely"
  "duplicate_status_requests_are_rejected" "login_may_advance_to_configuration"
  "configuration_is_terminal_in_this_milestone"
  by code_simp+

subsection \<open>\<open>error.rs\<close>\<close>

definition genuine_transport_failures_are_noise :: "io_error \<Rightarrow> bool" where
  "genuine_transport_failures_are_noise io \<longleftrightarrow>
     is_transport_noise (Protocol (Io io)) \<and> is_transport_noise Timeout"

definition a_corrupt_compressed_payload_is_not_noise :: "io_error \<Rightarrow> bool" where
  "a_corrupt_compressed_payload_is_not_noise io \<longleftrightarrow> \<not> is_transport_noise (Protocol (Decompression io))"

definition protocol_violations_are_not_noise :: bool where
  "protocol_violations_are_not_noise \<longleftrightarrow>
     list_all (\<lambda>error. \<not> is_transport_noise error)
       [UnexpectedPacket Status 0x7f, DuplicateStatusRequest, InvalidUsername (ascii ''has space'')]"

lemma noise_tests_pass:
  "genuine_transport_failures_are_noise io" "a_corrupt_compressed_payload_is_not_noise io"
  "protocol_violations_are_not_noise"
  by (simp_all add: genuine_transport_failures_are_noise_def a_corrupt_compressed_payload_is_not_noise_def
      protocol_violations_are_not_noise_def)

end
