(* ===== verification/PacketTests.thy ===== *)
theory PacketTests
  imports ProtocolTests
begin

text \<open>
  The unit tests of \<open>crates/protocol/src/packets\<close>, \<open>text.rs\<close> and \<open>codec.rs\<close>, as propositions about the
  model. A test that compresses takes the compressor and the decompressor as arguments, and holds
  for those that lose nothing.
\<close>

subsection \<open>\<open>handshake.rs\<close>\<close>

definition handshake_constants_match_the_specification :: bool where
  "handshake_constants_match_the_specification \<longleftrightarrow>
     ID Handshake = 0x00 \<and> STATE Handshake = Handshaking \<and> DIRECTION Handshake = Serverbound"

definition next_state_accepts_all_three_documented_values :: bool where
  "next_state_accepts_all_three_documented_values \<longleftrightarrow>
     list_all (\<lambda>(raw, expected). next_state_try_from raw = Inr expected)
       [(1, NS_Status), (2, NS_Login), (3, NS_Transfer)]"

definition next_state_rejects_undefined_values :: bool where
  "next_state_rejects_undefined_values \<longleftrightarrow>
     list_all (\<lambda>raw. next_state_try_from raw = Inl (InvalidNextState raw)) [0, 4, - 1, 999]"

definition handshake_rejects_oversized_server_address :: bool where
  "handshake_rejects_oversized_server_address \<longleftrightarrow>
     decode_body Handshake (write_varint 776 @ write_varint 1000) = Inl (StringTooLong 1000 765)"

subsection \<open>\<open>login.rs\<close>\<close>

definition login_disconnect_constants_match_the_specification :: bool where
  "login_disconnect_constants_match_the_specification \<longleftrightarrow>
     ID LoginDisconnect = 0x00 \<and> STATE LoginDisconnect = Login \<and> DIRECTION LoginDisconnect = Clientbound"

definition login_disconnect_round_trips :: bool where
  "login_disconnect_round_trips \<longleftrightarrow>
     (let original = \<lparr>reason = ascii ''{\"text\":\"nope\"}''\<rparr> in
        \<exists>src. decode_body LoginDisconnect (fst (encode_body LoginDisconnect original)) = Inr (original, src))"

definition sample_profile :: game_profile where
  "sample_profile =
     \<lparr>profile_uuid = 0x0123456789abcdef0123456789abcdef, username = ascii ''Notch'',
      properties = [\<lparr>prop_name = ascii ''textures'', prop_value = ascii ''base64data'',
                     signature = Some (ascii ''sig'')\<rparr>]\<rparr>"

definition login_packet_constants_match_the_specification :: bool where
  "login_packet_constants_match_the_specification \<longleftrightarrow>
     ID LoginStart = 0x00 \<and> DIRECTION LoginStart = Serverbound \<and>
     ID LoginSuccess = 0x02 \<and> DIRECTION LoginSuccess = Clientbound \<and>
     ID SetCompression = 0x03 \<and> DIRECTION SetCompression = Clientbound \<and>
     ID LoginAcknowledged = 0x03 \<and> DIRECTION LoginAcknowledged = Serverbound \<and>
     list_all (\<lambda>state. state = Login)
       [STATE LoginStart, STATE LoginSuccess, STATE SetCompression, STATE LoginAcknowledged]"

definition login_start_round_trips :: bool where
  "login_start_round_trips \<longleftrightarrow>
     (let original = \<lparr>ls_name = ascii ''Notch'', ls_uuid = - 1\<rparr> in
        decode_body LoginStart (fst (encode_body LoginStart original)) = Inr (original, []))"

definition login_start_encodes_name_then_uuid :: bool where
  "login_start_encodes_name_then_uuid \<longleftrightarrow>
     (let buf = fst (encode_body LoginStart \<lparr>ls_name = ascii ''ab'', ls_uuid = 1\<rparr>) in
        buf ! 0 = 0x02 \<and> take 2 (drop 1 buf) = ascii ''ab'' \<and> length buf = 3 + 16 \<and>
        buf ! (length buf - 1) = 0x01)"

definition login_start_rejects_an_oversized_name :: bool where
  "login_start_rejects_an_oversized_name \<longleftrightarrow>
     decode_body LoginStart (write_varint 49) = Inl (StringTooLong 49 48)"

definition set_compression_round_trips_including_negative :: bool where
  "set_compression_round_trips_including_negative \<longleftrightarrow>
     list_all (\<lambda>threshold. \<exists>src. decode_body SetCompression
         (fst (encode_body SetCompression \<lparr>sc_threshold = threshold\<rparr>)) = Inr (\<lparr>sc_threshold = threshold\<rparr>, src))
       [- 1, 0, 256, 2097151]"

definition login_success_round_trips :: bool where
  "login_success_round_trips \<longleftrightarrow>
     (let original = \<lparr>profile = sample_profile, session_id = 42\<rparr> in
        decode_body LoginSuccess (fst (encode_body LoginSuccess original)) = Inr (original, []))"

definition login_success_round_trips_with_no_properties_and_no_signature :: bool where
  "login_success_round_trips_with_no_properties_and_no_signature \<longleftrightarrow>
     (let original = \<lparr>profile = \<lparr>profile_uuid = 7, username = ascii ''Steve'', properties = []\<rparr>, session_id = 0\<rparr> in
        \<exists>src. decode_body LoginSuccess (fst (encode_body LoginSuccess original)) = Inr (original, src))"

definition login_acknowledged_is_an_empty_body :: bool where
  "login_acknowledged_is_an_empty_body \<longleftrightarrow>
     (let buf = fst (encode_body LoginAcknowledged ()) in
        buf = [] \<and> (\<exists>src. decode_body LoginAcknowledged buf = Inr ((), src)))"

subsection \<open>\<open>status.rs\<close> and \<open>text.rs\<close>\<close>

definition status_request_is_an_empty_body :: bool where
  "status_request_is_an_empty_body \<longleftrightarrow>
     (let buf = fst (encode_body StatusRequest ()) in
        buf = [] \<and> (\<exists>src. decode_body StatusRequest buf = Inr ((), src)))"

definition packet_constants_match_the_specification :: bool where
  "packet_constants_match_the_specification \<longleftrightarrow>
     ID StatusRequest = 0x00 \<and> DIRECTION StatusRequest = Serverbound \<and>
     ID StatusResponse = 0x00 \<and> DIRECTION StatusResponse = Clientbound \<and>
     ID PingRequest = 0x01 \<and> DIRECTION PingRequest = Serverbound \<and>
     ID PongResponse = 0x01 \<and> DIRECTION PongResponse = Clientbound \<and>
     list_all (\<lambda>state. state = Status)
       [STATE StatusRequest, STATE StatusResponse, STATE PingRequest, STATE PongResponse]"

definition status_response_round_trips :: bool where
  "status_response_round_trips \<longleftrightarrow>
     (let original = \<lparr>status_json = ascii ''{\"version\":{\"name\":\"26.2\",\"protocol\":776}}''\<rparr> in
        decode_body StatusResponse (fst (encode_body StatusResponse original)) = Inr (original, []))"

definition ping_and_pong_round_trip_every_payload_bit :: bool where
  "ping_and_pong_round_trip_every_payload_bit \<longleftrightarrow>
     list_all (\<lambda>payload.
         let buf = fst (encode_body PingRequest \<lparr>ping_payload = payload\<rparr>);
             buf' = fst (encode_body PongResponse \<lparr>pong_payload = payload\<rparr>)
         in length buf = 8 \<and>
            (\<exists>src. decode_body PingRequest buf = Inr (\<lparr>ping_payload = payload\<rparr>, src)) \<and>
            (\<exists>src. decode_body PongResponse buf' = Inr (\<lparr>pong_payload = payload\<rparr>, src)))
       [0, 1, - 1, 0x7fffffffffffffff, 0x8000000000000000, 0x0123456789abcdef]"

definition status_json_serialises_the_documented_shape :: bool where
  "status_json_serialises_the_documented_shape \<longleftrightarrow>
     (let value = json_of_status (status_response_json_new (text_component_new (ascii ''A Pyrite Server'')) 100 0);
          at = (\<lambda>a b. Option.bind (json_member value a) (\<lambda>v. json_member v b))
      in at ''version'' ''name'' = Some (JString (ascii ''26.2'')) \<and>
         at ''version'' ''protocol'' = Some (JInt 776) \<and>
         at ''players'' ''max'' = Some (JInt 100) \<and>
         at ''players'' ''online'' = Some (JInt 0) \<and>
         at ''description'' ''text'' = Some (JString (ascii ''A Pyrite Server'')) \<and>
         json_member value ''enforcesSecureChat'' = Some (JBool False) \<and>
         json_member value ''favicon'' = None)"

definition status_response_rejects_oversized_json_prefix :: bool where
  "status_response_rejects_oversized_json_prefix \<longleftrightarrow>
     (\<exists>len max. decode_body StatusResponse (write_varint 98302) = Inl (StringTooLong len max))"

definition optional_fields_are_omitted_when_unset :: bool where
  "optional_fields_are_omitted_when_unset \<longleftrightarrow>
     (let json = json_of_text (text_component_new (ascii ''hi'')) in
        json_member json ''color'' = None \<and> json_member json ''bold'' = None \<and> json_member json ''extra'' = None)"

definition deserialises_a_component_with_only_text :: bool where
  "deserialises_a_component_with_only_text \<longleftrightarrow>
     text_of_json (JObject [(ascii ''text'', JString (ascii ''hello''))]) = Some (text_component_new (ascii ''hello''))"

definition pinned_version_matches_documented_constants :: bool where
  "pinned_version_matches_documented_constants \<longleftrightarrow> PROTOCOL_VERSION = 776 \<and> VERSION_NAME = ascii ''26.2''"

lemma packet_constant_tests_pass:
  "handshake_constants_match_the_specification" "login_disconnect_constants_match_the_specification"
  "login_packet_constants_match_the_specification" "packet_constants_match_the_specification"
  "next_state_accepts_all_three_documented_values" "next_state_rejects_undefined_values"
  "pinned_version_matches_documented_constants"
  by (simp_all add: handshake_constants_match_the_specification_def
      login_disconnect_constants_match_the_specification_def login_packet_constants_match_the_specification_def
      packet_constants_match_the_specification_def next_state_accepts_all_three_documented_values_def
      next_state_rejects_undefined_values_def pinned_version_matches_documented_constants_def
      packet_defs next_state_try_from_def PROTOCOL_VERSION_def VERSION_NAME_def)

lemmas char_limits = MAX_BYTES_PER_CHAR_def MAX_SERVER_ADDRESS_CHARS_def MAX_STATUS_JSON_CHARS_def
  MAX_DISCONNECT_REASON_CHARS_def MAX_USERNAME_CHARS_def MAX_PROPERTY_NAME_CHARS_def
  MAX_PROPERTY_VALUE_CHARS_def MAX_SIGNATURE_CHARS_def MAX_PROFILE_PROPERTIES_def

lemma packet_refusal_tests_pass:
  "handshake_rejects_oversized_server_address" "login_start_rejects_an_oversized_name"
  "status_response_rejects_oversized_json_prefix"
proof -
  note long = read_string_def usize_try_from_i32_def saturating_mul_def USIZE_MAX_def char_limits
  have "read_string 255 (write_varint 1000) = Inl (StringTooLong 1000 765)"
      "read_string 16 (write_varint 49) = Inl (StringTooLong 49 48)"
      "read_string 32767 (write_varint 98302) = Inl (StringTooLong 98302 98301)"
    using read_varint_write [of 1000 "[]"] read_varint_write [of 49 "[]"] read_varint_write [of 98302 "[]"]
    by (simp_all add: long)
  then show "handshake_rejects_oversized_server_address" "login_start_rejects_an_oversized_name"
      "status_response_rejects_oversized_json_prefix"
    by (simp_all add: handshake_rejects_oversized_server_address_def login_start_rejects_an_oversized_name_def
        status_response_rejects_oversized_json_prefix_def packet_defs reader_defs char_limits)
qed

lemma packet_roundtrip_tests_pass:
  "login_disconnect_round_trips" "login_start_round_trips" "set_compression_round_trips_including_negative"
  "login_success_round_trips" "login_success_round_trips_with_no_properties_and_no_signature"
  "login_acknowledged_is_an_empty_body" "status_request_is_an_empty_body" "status_response_round_trips"
  "ping_and_pong_round_trip_every_payload_bit"
proof -
  note oks = packet_ok_defs profile_ok_def property_ok_def string_ok_def char_limits ascii_def
  show "login_disconnect_round_trips"
    by (simp add: login_disconnect_round_trips_def LoginDisconnect.rd_wr_exact oks)
  show "login_start_round_trips"
    by (simp add: login_start_round_trips_def LoginStart.rd_wr_exact oks)
  show "set_compression_round_trips_including_negative"
    by (simp add: set_compression_round_trips_including_negative_def SetCompression.rd_wr_exact)
  show "login_success_round_trips" "login_success_round_trips_with_no_properties_and_no_signature"
    by (simp_all add: login_success_round_trips_def sample_profile_def
        login_success_round_trips_with_no_properties_and_no_signature_def LoginSuccess.rd_wr_exact oks)
  show "status_response_round_trips"
    by (simp add: status_response_round_trips_def StatusResponse.rd_wr_exact oks)
  have "length (fst (encode_body PingRequest p)) = 8" for p
    by (simp add: PingRequest_def write_i64_def)
  then show "ping_and_pong_round_trip_every_payload_bit"
    by (simp add: ping_and_pong_round_trip_every_payload_bit_def PingRequest.rd_wr_exact PongResponse.rd_wr_exact)
  show "login_acknowledged_is_an_empty_body" "status_request_is_an_empty_body"
    by (simp_all add: login_acknowledged_is_an_empty_body_def status_request_is_an_empty_body_def packet_defs
        reader_defs)
qed

lemma document_tests_pass:
  "status_json_serialises_the_documented_shape" "optional_fields_are_omitted_when_unset"
  "deserialises_a_component_with_only_text" "login_start_encodes_name_then_uuid"
  by code_simp+

end
