(* ===== verification/CodecTests.thy ===== *)
theory CodecTests
  imports PacketTests
begin

text \<open>
  The unit tests of \<open>crates/protocol/src/codec.rs\<close>, as propositions about the model. Without compression a
  test holds whatever the compressor is; a test that compresses takes the compressor and the decompressor as
  arguments, and holds for a pair that loses nothing.
\<close>

subsection \<open>Frames\<close>

definition encoded_handshake :: "deflater \<Rightarrow> byte list" where
  "encoded_handshake deflate = snd (snd (codec_encode deflate Handshake codec_new handshake_sample))"

definition encoded_frame_is_length_then_id_then_body :: "deflater \<Rightarrow> bool" where
  "encoded_frame_is_length_then_id_then_body deflate \<longleftrightarrow>
     (let buf = encoded_handshake deflate in buf ! 0 = 16 \<and> buf ! 1 = 0x00 \<and> length buf = 17)"

definition decodes_a_complete_frame :: "deflater \<Rightarrow> inflater \<Rightarrow> bool" where
  "decodes_a_complete_frame deflate inflate \<longleftrightarrow>
     (case codec_decode inflate codec_new (encoded_handshake deflate) of
        (Inr (Some packet), buf, _) \<Rightarrow>
          raw_id packet = 0x00 \<and> buf = [] \<and>
          (case decode_as Handshake packet of
             Inl _ \<Rightarrow> False
           | Inr handshake \<Rightarrow> server_address handshake = ascii ''localhost'' \<and> next_state handshake = NS_Status)
      | _ \<Rightarrow> False)"

definition returns_none_for_every_partial_prefix :: "deflater \<Rightarrow> inflater \<Rightarrow> bool" where
  "returns_none_for_every_partial_prefix deflate inflate \<longleftrightarrow>
     (let full = encoded_handshake deflate in
        list_all (\<lambda>split. let partial = take split full in
            (case codec_decode inflate codec_new partial of (r, buf, _) \<Rightarrow> r = Inr None \<and> buf = partial))
          [0..<length full])"

text \<open>The loop of the tests that feed a decoder byte by byte: the frames seen and what is left in the buffer.\<close>

fun feed :: "inflater \<Rightarrow> packet_codec \<Rightarrow> byte list \<Rightarrow> byte list \<Rightarrow> (raw_packet list \<times> byte list) option" where
  "feed inflate c buf [] = Some ([], buf)"
| "feed inflate c buf (b # bs) =
     (case codec_decode inflate c (buf @ [b]) of
        (Inl _, _) \<Rightarrow> None
      | (Inr frame, buf, _) \<Rightarrow>
          map_option (apfst ((@) (case frame of None \<Rightarrow> [] | Some p \<Rightarrow> [p]))) (feed inflate c buf bs))"

definition feeding_one_byte_at_a_time_yields_exactly_one_frame :: "deflater \<Rightarrow> inflater \<Rightarrow> bool" where
  "feeding_one_byte_at_a_time_yields_exactly_one_frame deflate inflate \<longleftrightarrow>
     (case feed inflate codec_new [] (encoded_handshake deflate) of
        None \<Rightarrow> False
      | Some (ps, buf) \<Rightarrow> length ps = 1 \<and> buf = [])"

definition decodes_two_frames_from_one_buffer :: "deflater \<Rightarrow> inflater \<Rightarrow> bool" where
  "decodes_two_frames_from_one_buffer deflate inflate \<longleftrightarrow>
     (case codec_decode inflate codec_new (encoded_handshake deflate @ encoded_handshake deflate) of
        (Inr (Some _), buf, _) \<Rightarrow>
          (case codec_decode inflate codec_new buf of
             (Inr (Some _), buf, _) \<Rightarrow>
               (case codec_decode inflate codec_new buf of (r, buf, _) \<Rightarrow> r = Inr None \<and> buf = [])
           | _ \<Rightarrow> False)
      | _ \<Rightarrow> False)"

definition rejects_a_length_prefix_above_the_maximum :: "inflater \<Rightarrow> bool" where
  "rejects_a_length_prefix_above_the_maximum inflate \<longleftrightarrow>
     (\<exists>len max. fst (codec_decode inflate codec_new (write_varint (i32_of_usize (MAX_PACKET_SIZE + 1)))) =
       Inl (FrameTooLarge len max))"

definition rejects_a_negative_length_prefix :: "inflater \<Rightarrow> bool" where
  "rejects_a_negative_length_prefix inflate \<longleftrightarrow>
     fst (codec_decode inflate codec_new (write_varint (- 1))) = Inl (NegativeLength (- 1))"

definition decode_as_rejects_trailing_bytes :: "deflater \<Rightarrow> inflater \<Rightarrow> bool" where
  "decode_as_rejects_trailing_bytes deflate inflate \<longleftrightarrow>
     (let buf = snd (snd (codec_encode deflate PingRequest codec_new \<lparr>ping_payload = 7\<rparr>));
          tampered = write_varint 10 @ drop 1 buf @ [0xaa]
      in case codec_decode inflate codec_new tampered of
           (Inr (Some frame), _) \<Rightarrow> decode_as PingRequest frame = Inl (TrailingBytes 1)
         | _ \<Rightarrow> False)"

lemma encoded_handshake: "encoded_handshake deflate = 16 # 0 # handshake_layout"
  by (simp add: encoded_handshake_def handshake_layout_match)

lemma handshake_complete:
  "codec_decode inflate codec_new (16 # 0 # handshake_layout @ rest) =
     (Inr (Some \<lparr>raw_id = 0, raw_body = handshake_layout\<rparr>), rest, 0)"
  by (simp add: frame_eval handshake_layout_def)

lemma handshake_partial:
  "n < 17 \<Longrightarrow> \<exists>k. codec_decode inflate codec_new (take n (16 # 0 # handshake_layout)) =
     (Inr None, take n (16 # 0 # handshake_layout), k)"
  by (cases n) (auto simp: frame_eval handshake_layout_def)

lemma frame_tests_pass:
  "encoded_frame_is_length_then_id_then_body deflate" "decodes_a_complete_frame deflate inflate"
  "returns_none_for_every_partial_prefix deflate inflate" "decodes_two_frames_from_one_buffer deflate inflate"
proof -
  have len: "length handshake_layout = 15" by (simp add: handshake_layout_def)
  then show "encoded_frame_is_length_then_id_then_body deflate"
    by (simp add: encoded_frame_is_length_then_id_then_body_def encoded_handshake)
  show "decodes_a_complete_frame deflate inflate"
    using handshake_complete [of inflate "[]"] handshake_layout_match(2)
    by (simp add: decodes_a_complete_frame_def encoded_handshake decode_as_def handshake_sample_def)
  show "returns_none_for_every_partial_prefix deflate inflate"
    using handshake_partial [of _ inflate] len
    by (fastforce simp: returns_none_for_every_partial_prefix_def encoded_handshake list_all_iff Let_def)
  show "decodes_two_frames_from_one_buffer deflate inflate"
    using handshake_complete [of inflate] handshake_complete [of inflate "[]"] handshake_partial [of 0 inflate]
    by (auto simp: decodes_two_frames_from_one_buffer_def encoded_handshake)
qed

lemma feed_partial:
  assumes "\<And>n. n \<le> length bs \<Longrightarrow> \<exists>k. codec_decode inflate c (buf @ take n bs) = (Inr None, buf @ take n bs, k)"
  shows "feed inflate c buf (bs @ rest) = feed inflate c (buf @ bs) rest"
  using assms
proof (induction bs arbitrary: buf)
  case (Cons b bs)
  obtain k where "codec_decode inflate c (buf @ [b]) = (Inr None, buf @ [b], k)"
    using Cons.prems [of 1] by auto
  moreover have "\<exists>k. codec_decode inflate c ((buf @ [b]) @ take n bs) = (Inr None, (buf @ [b]) @ take n bs, k)"
    if "n \<le> length bs" for n
    using Cons.prems [of "Suc n"] that by simp
  ultimately show ?case
    using Cons.IH [of "buf @ [b]"] by (simp add: apfst_def map_prod_def option.map_id0 flip: id_def)
qed simp

lemma feeding_test_passes: "feeding_one_byte_at_a_time_yields_exactly_one_frame deflate inflate"
proof -
  let ?bs = "16 # 0 # butlast handshake_layout"
  have bs: "16 # 0 # handshake_layout = ?bs @ [1]" by (simp add: handshake_layout_def)
  have "\<exists>k. codec_decode inflate codec_new ([] @ take n ?bs) = (Inr None, [] @ take n ?bs, k)"
    if "n \<le> length ?bs" for n
  proof -
    have "n < 17" using that by (simp add: handshake_layout_def)
    moreover have "take n ?bs = take n (?bs @ [1])" using that by (simp only: take_append) simp
    then have "take n ?bs = take n (16 # 0 # handshake_layout)" by (simp only: bs)
    ultimately show ?thesis using handshake_partial [of n inflate] by simp
  qed
  from feed_partial [of ?bs inflate codec_new "[]" "[1]", OF this]
  have "feed inflate codec_new [] (encoded_handshake deflate) = feed inflate codec_new ?bs [1]"
    by (simp add: encoded_handshake bs)
  moreover have "codec_decode inflate codec_new (?bs @ [1]) =
      (Inr (Some \<lparr>raw_id = 0, raw_body = handshake_layout\<rparr>), [], 0)"
    using handshake_complete [of inflate "[]"] bs by simp
  ultimately show ?thesis
    by (simp add: feeding_one_byte_at_a_time_yields_exactly_one_frame_def)
qed

lemma refused_frame_tests_pass:
  "rejects_a_length_prefix_above_the_maximum inflate" "rejects_a_negative_length_prefix inflate"
  "decode_as_rejects_trailing_bytes deflate inflate"
proof -
  show "rejects_a_length_prefix_above_the_maximum inflate" "rejects_a_negative_length_prefix inflate"
    using read_varint_slice_write [of "i32_of_usize (MAX_PACKET_SIZE + 1)" "[]"]
      read_varint_slice_write [of "- 1" "[]"]
    by (simp_all add: rejects_a_length_prefix_above_the_maximum_def rejects_a_negative_length_prefix_def
        codec_decode_def usize_try_from_i32_def i32_of_usize_def MAX_PACKET_SIZE_def)
  have "snd (snd (codec_encode deflate PingRequest codec_new \<lparr>ping_payload = 7\<rparr>)) = [9, 1, 0, 0, 0, 0, 0, 0, 0, 7]"
    by (simp add: codec_encode_def PingRequest_def codec_new_def write_i64_def
      write_varint_def write_leb.simps PAYLOAD_MASK_def MAX_PACKET_SIZE_def i32_of_usize_def Let_def eval_simps)
  moreover have "write_varint 10 = [10]" by code_simp
  ultimately show "decode_as_rejects_trailing_bytes deflate inflate"
    by (simp add: decode_as_rejects_trailing_bytes_def frame_eval decode_as_def PingRequest_def reader_defs read_i64_def
        get_be_def)
qed

subsection \<open>Compression\<close>

definition compressed_codec :: "i32 \<Rightarrow> packet_codec" where
  "compressed_codec threshold = set_compression threshold codec_new"

definition set_compression_treats_a_negative_threshold_as_disabled :: bool where
  "set_compression_treats_a_negative_threshold_as_disabled \<longleftrightarrow>
     (let codec = set_compression 256 codec_new in
        compression_threshold codec = Some 256 \<and> compression_threshold (set_compression (- 1) codec) = None)"

definition a_small_packet_is_sent_uncompressed_with_a_zero_data_length :: "deflater \<Rightarrow> bool" where
  "a_small_packet_is_sent_uncompressed_with_a_zero_data_length deflate \<longleftrightarrow>
     (case codec_encode deflate PongResponse (compressed_codec 256) \<lparr>pong_payload = 7\<rparr> of (r, _, buf) \<Rightarrow>
        r = Inr () \<and> buf ! 0 = 10 \<and> buf ! 1 = 0x00 \<and> buf ! 2 = 0x01 \<and> length buf = 11)"

text \<open>A packet encoded, decoded and converted back by one codec.\<close>

definition pong_through :: "deflater \<Rightarrow> inflater \<Rightarrow> i32 \<Rightarrow> i64 \<Rightarrow> bool" where
  "pong_through deflate inflate threshold payload \<longleftrightarrow>
     (case codec_encode deflate PongResponse (compressed_codec threshold) \<lparr>pong_payload = payload\<rparr> of
        (Inr _, codec, buf) \<Rightarrow>
          (case codec_decode inflate codec buf of
             (Inr (Some frame), _) \<Rightarrow> decode_as PongResponse frame = Inr \<lparr>pong_payload = payload\<rparr>
           | _ \<Rightarrow> False)
      | _ \<Rightarrow> False)"

definition a_small_packet_round_trips_through_the_uncompressed_path :: "deflater \<Rightarrow> inflater \<Rightarrow> bool" where
  "a_small_packet_round_trips_through_the_uncompressed_path deflate inflate \<longleftrightarrow>
     pong_through deflate inflate 256 (- 1)"

definition a_zero_threshold_compresses_everything :: "deflater \<Rightarrow> inflater \<Rightarrow> bool" where
  "a_zero_threshold_compresses_everything deflate inflate \<longleftrightarrow> pong_through deflate inflate 0 1"

text \<open>A frame whose payload is a data length and some bytes.\<close>

definition compressed_frame :: "i32 \<Rightarrow> byte list \<Rightarrow> byte list" where
  "compressed_frame data_length z =
     (let body = write_varint data_length @ z in write_varint (i32_of_usize (length body)) @ body)"

definition a_declared_inflated_size_above_the_maximum_is_rejected :: "inflater \<Rightarrow> bool" where
  "a_declared_inflated_size_above_the_maximum_is_rejected inflate \<longleftrightarrow>
     (\<exists>len max. fst (codec_decode inflate (compressed_codec 256)
         (compressed_frame (i32_of_usize (MAX_PACKET_SIZE + 1)) [0x78, 0x9c, 0x00])) = Inl (FrameTooLarge len max))"

definition a_compressed_packet_below_the_threshold_is_rejected :: "inflater \<Rightarrow> bool" where
  "a_compressed_packet_below_the_threshold_is_rejected inflate \<longleftrightarrow>
     fst (codec_decode inflate (compressed_codec 256) (compressed_frame 10 [0x78, 0x9c, 0x00])) =
       Inl (CompressedBelowThreshold 10 256)"

definition a_payload_that_inflates_to_the_wrong_size_is_rejected :: "deflater \<Rightarrow> inflater \<Rightarrow> bool" where
  "a_payload_that_inflates_to_the_wrong_size_is_rejected deflate inflate \<longleftrightarrow>
     (case deflate (replicate 1000 0x41) of
        Inl _ \<Rightarrow> False
      | Inr z \<Rightarrow>
          (\<exists>actual. fst (codec_decode inflate (compressed_codec 256) (compressed_frame 900 z)) =
             Inl (CompressedSizeMismatch 900 actual)))"

definition a_negative_data_length_is_rejected :: "inflater \<Rightarrow> bool" where
  "a_negative_data_length_is_rejected inflate \<longleftrightarrow>
     fst (codec_decode inflate (compressed_codec 256) (compressed_frame (- 1) [0x78, 0x9c, 0x00])) =
       Inl (NegativeLength (- 1))"

lemma compressed_frame_opened:
  assumes "length z \<le> MAX_PACKET_SIZE - 5"
  shows "fst (codec_decode inflate (compressed_codec 256) (compressed_frame n z)) =
    map_sum id Some (open_payload inflate (Some 256) (write_varint n @ z))"
proof -
  have "length (write_varint n @ z) \<le> MAX_PACKET_SIZE"
    using assms varint_len_bounds(3) [of n] by (simp add: MAX_PACKET_SIZE_def del: varint_len_bounds)
  then show ?thesis
    using codec_decode_frame [of "write_varint n @ z" inflate "compressed_codec 256" "[]"]
    by (simp add: compressed_frame_def Let_def compressed_codec_def set_compression_def MAX_PACKET_SIZE_def)
qed

lemma compressed_header_tests_pass:
  "a_declared_inflated_size_above_the_maximum_is_rejected inflate"
  "a_compressed_packet_below_the_threshold_is_rejected inflate" "a_negative_data_length_is_rejected inflate"
  by (simp_all add: a_declared_inflated_size_above_the_maximum_is_rejected_def
      a_compressed_packet_below_the_threshold_is_rejected_def a_negative_data_length_is_rejected_def
      compressed_frame_opened open_payload_def decompress_def usize_try_from_i32_def usize_of_i32_def
      i32_of_usize_def MAX_PACKET_SIZE_def)

lemma wrong_size_test_passes:
  assumes "zlib_lossless deflate inflate" "deflate (replicate 1000 0x41) = Inr z" "length z \<le> MAX_PACKET_SIZE - 5"
  shows "a_payload_that_inflates_to_the_wrong_size_is_rejected deflate inflate"
proof -
  have "inflate z = (replicate 1000 0x41, None)"
    using assms(1,2) by (auto simp: zlib_lossless_def)
  then show ?thesis
    by (simp add: a_payload_that_inflates_to_the_wrong_size_is_rejected_def assms(2) compressed_frame_opened [OF assms(3)]
        open_payload_def decompress_def usize_try_from_i32_def usize_of_i32_def read_to_end_take_def MAX_PACKET_SIZE_def)
qed

lemma pong_frame:
  "length (write_varint (ID PongResponse) @ fst (encode_body PongResponse p)) = 9"
  "snd (encode_body PongResponse p) = Inr ()"
  by (simp_all add: PongResponse_def write_i64_def write_varint_def write_leb.simps PAYLOAD_MASK_def)

lemma pong_through:
  assumes "zlib_lossless deflate inflate"
    and "deflate (write_varint (ID PongResponse) @ fst (encode_body PongResponse \<lparr>pong_payload = v\<rparr>)) = Inr z"
    and "length z \<le> MAX_PACKET_SIZE - 5"
  shows "pong_through deflate inflate t v"
proof -
  let ?buf = "write_varint (ID PongResponse) @ fst (encode_body PongResponse \<lparr>pong_payload = v\<rparr>)"
  obtain c' bs where e: "codec_encode deflate PongResponse (compressed_codec t) \<lparr>pong_payload = v\<rparr> = (Inr (), c', bs)"
    using codec_encode_succeeds [of PongResponse "\<lparr>pong_payload = v\<rparr>" deflate z "compressed_codec t"] assms(2)
      pong_frame [of "\<lparr>pong_payload = v\<rparr>"]
    by (auto simp: MAX_PACKET_SIZE_def)
  obtain payload where p: "bs = write_varint (i32_of_usize (length payload)) @ payload"
      "compression_threshold c' = compression_threshold (compressed_codec t)"
      "case compression_threshold (compressed_codec t) of None \<Rightarrow> payload = ?buf
       | Some t \<Rightarrow> if length ?buf < usize_of_i32 t then payload = write_varint 0 @ ?buf
           else \<exists>z. deflate ?buf = Inr z \<and> payload = write_varint (i32_of_usize (length ?buf)) @ z"
    using e by (rule codec_encode_frame)
  have "length payload \<le> MAX_PACKET_SIZE"
    using p(3) assms(2,3) pong_frame(1) [of "\<lparr>pong_payload = v\<rparr>"] varint_len_bounds(3) [of 0]
      varint_len_bounds(3) [of "i32_of_usize (length ?buf)"]
    by (auto simp: MAX_PACKET_SIZE_def simp del: varint_len_bounds split: option.splits if_splits)
  moreover have "length bs < 2 ^ 31"
    using calculation varint_len_bounds(3) [of "i32_of_usize (length payload)"]
    by (simp add: p(1) MAX_PACKET_SIZE_def del: varint_len_bounds)
  moreover have same: "payload' = payload" if "bs = write_varint (i32_of_usize (length payload')) @ payload'" for payload'
    using read_varint_write [of "i32_of_usize (length payload)" payload] that p(1)
      read_varint_write [of "i32_of_usize (length payload')" payload']
    by (metis Inr_inject prod.inject)
  ultimately obtain raw k where "codec_decode inflate c' bs = (Inr (Some raw), [], k)"
      "decode_as PongResponse raw = Inr \<lparr>pong_payload = v\<rparr>"
    using codec_decode_encoded [OF assms(1) PongResponse.packet_impl_axioms TrueI e, of c' "[]"] p(2)
    by (auto dest!: same)
  then show ?thesis by (simp add: pong_through_def e)
qed

lemma compressed_codec_tests_pass:
  "set_compression_treats_a_negative_threshold_as_disabled"
  "a_small_packet_is_sent_uncompressed_with_a_zero_data_length deflate"
  by (simp_all add: set_compression_treats_a_negative_threshold_as_disabled_def
      a_small_packet_is_sent_uncompressed_with_a_zero_data_length_def compressed_codec_def set_compression_def
      codec_encode_def PongResponse_def codec_new_def write_i64_def write_varint_def write_leb.simps
      PAYLOAD_MASK_def MAX_PACKET_SIZE_def i32_of_usize_def usize_of_i32_def varint_len_def Let_def eval_simps)

lemma compressed_roundtrip_tests_pass:
  assumes "zlib_lossless deflate inflate" "\<And>bs. length bs = 9 \<Longrightarrow> \<exists>z. deflate bs = Inr z \<and> length z \<le> MAX_PACKET_SIZE - 5"
  shows "a_small_packet_round_trips_through_the_uncompressed_path deflate inflate"
    "a_zero_threshold_compresses_everything deflate inflate"
  unfolding a_small_packet_round_trips_through_the_uncompressed_path_def a_zero_threshold_compresses_everything_def
  using pong_through [OF assms(1)] assms(2) [OF pong_frame(1)] by blast+

end
