(* ===== verification/Spec2Isabelle.thy ===== *)
theory Spec2Isabelle
  imports ServerMain Timing StatusParse Logging PacketTypes NbtTests CodecTests
begin

text \<open>
  \<^bold>\<open>Pyrite\<close> is a server for the Minecraft protocol in four crates under \<open>src/crates\<close>: \<open>nbt\<close> (the
  NBT value tree and its binary form), \<open>protocol\<close> (varints, field codecs, packets, framing and
  compression), \<open>net\<close> (the connection state machine, offline login, one connection, the accept loop)
  and \<open>server\<close> (command line and startup). \<open>main\<close> builds a \<open>ServerConfig\<close> and \<open>ServeOptions\<close> from
  its arguments and calls \<open>serve\<close>, which admits peers under a semaphore and runs one \<open>Connection\<close> per
  peer; a connection reads frames through \<open>PacketCodec\<close>, dispatches them on its state and the packet
  ID, and answers through the same codec; a packet body is built of the field codecs, which rest on
  varints and, for NBT fields, on the \<open>nbt\<close> crate.

  \<^bold>\<open>Which theory models what.\<close>
  \<^item> \<open>Prelude\<close>: machine integers, results, buffers, big-endian integers, the collections
    \<open>wire_simps\<close>, \<open>eval_simps\<close>, \<open>len_simps\<close>. \<open>Utf8\<close>: \<open>String\<close> as valid UTF-8 and its characters.
  \<^item> \<open>WireCodec\<close>: the contract of an encoder and a decoder, as locales: \<open>wire_codec\<close> (what is encoded
    decodes, whatever follows), \<open>streaming_codec\<close> (no strict prefix is accepted),
    \<open>canonical_codec\<close> (what is accepted re-encodes to the bytes consumed), with the
    consequences (injectivity, prefix-freeness, determinism) proved once inside them. The
    interpretations are in the theories that provide the codecs.
  \<^item> \<open>NbtTag\<close>: \<open>nbt/src/tag.rs\<close>, \<open>macros.rs\<close>, \<open>error.rs\<close>; the locale \<open>ordered_store\<close> is the
    contract of a compound. \<open>NbtWrite\<close>: \<open>write.rs\<close>. \<open>NbtRead\<close>: \<open>read.rs\<close>, with the termination
    of its four mutually recursive readers. \<open>NbtRoundtrip\<close>: encoder and decoder together.
    \<open>NbtLimits\<close>: the decoder's limits, exactly. \<open>NbtAlloc\<close>: what the decoder reserves on the word of
    a length field, beside it.
  \<^item> \<open>ProtocolError\<close>, \<open>VarInt\<close>, \<open>Buf\<close>: \<open>protocol/src/error.rs\<close>, \<open>varint.rs\<close>, \<open>buf.rs\<close>; the locale
    \<open>field_codec\<close> is the contract of a packet field, closed under arrays and optionals.
  \<^item> \<open>StatusJson\<close>: \<open>text.rs\<close>, \<open>version.rs\<close> and the status document of \<open>packets/status.rs\<close> as the JSON
    value its \<open>Serialize\<close> derive defines; \<open>StatusParse\<close>: the reading of that value its \<open>Deserialize\<close>
    derive defines. \<open>Packets\<close>: the trait \<open>Packet\<close> as a record and its ten implementations, each an
    interpretation of \<open>packet_impl\<close>; \<open>PacketTypes\<close>: what their decoders can yield, each an
    interpretation of \<open>decoded_packet\<close>.
  \<^item> \<open>Codec\<close>: \<open>codec.rs\<close>, the decoder and the encoder with and without compression.
  \<^item> \<open>ConnState\<close>, \<open>Offline\<close>, \<open>Connection\<close>, \<open>Server\<close>: \<open>net/src/state.rs\<close> and \<open>error.rs\<close>, \<open>offline.rs\<close>,
    \<open>connection.rs\<close> and \<open>config.rs\<close>, \<open>server.rs\<close>. \<open>Session\<close>: \<open>Connection::run\<close> over the bytes of a
    socket. \<open>Exchange\<close>: each request together with the answer the client reads. \<open>Dialogue\<close>: the
    sequences of frames a connection accepts. \<open>Timing\<close>: \<open>Connection::run\<close> against a clock. \<open>System\<close>: the
    accept loop with the connections it spawned, which implements \<open>Server\<close> (locale
    \<open>event_refinement\<close>). \<open>Display\<close>: the messages of the errors. \<open>Logging\<close>: the lines that are
    logged about a connection, with their fields. \<open>ServerMain\<close>: \<open>server/src/main.rs\<close>, up to
    the outcome of \<open>serve\<close>.
  \<^item> \<open>Vectors\<close>: the tables of the repository's own tests, evaluated on the model; \<open>NbtTests\<close>,
    \<open>ProtocolTests\<close>, \<open>PacketTests\<close> and \<open>CodecTests\<close>: its unit tests, a definition per test, under the
    name of the test, that says what the test asserts, and shown to hold.
  \<^item> This theory: the dialogues, which span the codec, the packets and the connection.

  \<^bold>\<open>State and effects.\<close> A reader takes the remaining bytes and returns its value and the rest, or an
  error; a writer returns the bytes it appends. A connection is a record of its codec, its state, its
  configuration and the bytes flushed so far; a handler returns its result and the connection as it
  left it. The accept loop, the connection tasks and the clock are concurrent: \<open>Server\<close> gives the
  atomic events of each over one state, and every statement there is about all their interleavings;
  \<open>System\<close> gives the same with the tasks themselves, each a connection with its read buffer, its
  result and the events of its socket.

  \<^bold>\<open>Parameters\<close>, for code outside the repository:
  \<^item> \<open>flate2\<close>: \<open>deflate\<close> and \<open>inflate\<close>; relied on are \<open>zlib_lossless\<close> and, for a whole login, that
    compression succeeds and at most doubles its input plus 64 bytes (\<open>env_ok\<close>; zlib's own bound is
    far below). \<open>stored_deflate\<close> and \<open>stored_inflate\<close> show the hypotheses can hold.
  \<^item> MD5: a function to sixteen bytes (\<open>md5_digest\<close>). \<open>serde_json\<close>: a printer of JSON values.
  \<^item> The transport and the timer: a list of \<open>stream_event\<close>s (for \<open>run\<close> alone, of \<open>read_event\<close>s) and a
    flush function, all arbitrary; \<open>unfinished\<close> is the error \<open>Framed\<close> reports for bytes left at the
    end, \<open>listen\<close> what binding the listener reports. Tokio's semaphore and \<open>JoinSet\<close>: counters.
  \<^item> How long the transport takes to accept an answer: \<open>pace\<close> (\<open>Timing\<close>); relied on for a bounded life
    is that it accepts every answer within some bound (\<open>paced\<close>); \<open>unread\<close> is a transport with a finite
    buffer and a peer that reads nothing.
  \<^item> \<open>{:?}\<close> of a string: \<open>debug_str\<close>; relied on is that it escapes control characters.

  \<^bold>\<open>What is proved.\<close> NBT: the decoder accepts only well-formed documents within its node and depth
  limits and re-encodes them to the same bytes, the encoder's domain is exact, both root forms round
  trip and reject truncation, the decoder's verdict on everything the encoder writes is known, and what
  it reserves is bounded whatever the counts in the input claim. Varints: round trip, the result on
  every input, agreement of the consuming and the framing decoder. Fields and packets: round trip, truncation, limits. Codec: round
  trip in all three modes, independence of how TCP cuts the stream, waiting without consuming on every
  strict prefix, bounded reservation and safety on arbitrary bytes. Packets: whatever a decoder yields
  is within the limits of its fields and survives encoding again; the status document survives
  serialisation. Connection: an invariant of every reachable state, exact dispatch, exactly which
  sequences of frames keep it open, that the deadline of the read loop
  bounds its life unless it is a login, which its peer can keep open, whole login and status dialogues from the bytes of the client to those it
  reads off the wire, independence of segmentation, classification of errors as noise or warnings,
  error messages without control characters, and which fields of its log lines hold a peer's text as it
  came. Server: the connection cap under every interleaving, the meaning of the counts it returns,
  termination of draining. System: refinement of the accept loop, isolation of each
  connection from all others, exactness of the log, recovery of a full server by its timers alone,
  once they run out (sending is one step there; \<open>Timing\<close> shows what answers that are never read do).
  Program: no public bind without the flag, the cap and the configuration of the command line in
  every connection, and that it can always be brought to its end.

  \<^bold>\<open>Termination and bounds.\<close> Every function is total, no fuel is used: the NBT readers terminate
  because no step leaves more input and each round of their loops consumes some or counts down, the
  varint writer because the value shrinks, the read loop because a decoded frame consumes bytes. Where
  the source casts or counts in a fixed width the width is kept, and the counters of the accept loop, \<open>u64\<close>s,
  wrap around as in a build without overflow checks; \<open>usize\<close> is a natural number with the
  bound of a 64-bit target at checked and saturating operations. \<open>Timing\<close> looks at a connection up to a
  horizon, an arbitrary time: what arrives by then is a finite list, and a connection whose timer has not
  fired by then is open, so its end is never a consequence of the list being finite. That a packet is delivered is shown
  for packets of at most 1000000 bytes before compression, which leaves the compressor its slack below
  \<open>MAX_PACKET_SIZE\<close>; the largest the server sends, a status document or a disconnect reason within its
  field's limit, are below it or bounded by a hypothesis.

  \<^bold>\<open>Where the code and its comments differ.\<close> Proved of the code as it is: with compression on, the
  encoder can emit a frame its own decoder rejects (\<open>Codec\<close>); a login acknowledgement is accepted before
  any login start, and a second login start is answered in the compressed format (below); string
  limits count three bytes per character (\<open>Buf\<close>); the read timeout covers a whole frame, not a silence, and no
  timer runs while an answer is sent, so a peer that reads nothing and has filled the transport's buffers is
  not dropped (\<open>Timing\<close>); a connection that has finished but was not joined is reported as abandoned (\<open>Server\<close>);
  two \<open>debug!\<close> lines hand a peer's text to the logger unescaped (\<open>Logging\<close>); the NBT encoder has no counterpart to the decoder's
  node budget (\<open>NbtLimits\<close>).

  \<^bold>\<open>Not modelled\<close>: the growth of vectors and buffers beyond what is reserved for them, the log lines of the
  accept loop and of \<open>main\<close>, what the \<open>tracing\<close> subscriber makes of a line, the argument parser and the tracing setup, the internals of
  \<open>tokio_util::codec::Framed\<close>, and the bytes an NBT writer leaves behind when it fails (the caller
  drops the buffer). Of the unit tests, those that time a decode, compare the size of zlib's output or
  pin the values of MD5 are left out, as is the wording of the refused bind. The crate roots declare modules and re-export names only.
\<close>

section \<open>A login, end to end\<close>

text \<open>The three steps of a login, over bytes.\<close>

lemma drive_hello_login:
  assumes "reads_as inflate None bs Handshake h" "next_state h \<noteq> NS_Status"
  shows "drive env inflate (connection_new cfg) (bs @ rest) = drive env inflate (login_waiting cfg) rest"
proof -
  have "reads_as inflate (compression_threshold (codec (connection_new cfg))) bs Handshake h"
    using assms(1) by (simp add: connection_new_def codec_new_def)
  moreover have "handle env raw (connection_new cfg) = (Inr Continue, login_waiting cfg)"
    if "raw_id raw = ID Handshake" "decode_as Handshake raw = Inr h" for raw
    using hello_login [OF that(2) assms(2)] that(1) by (simp add: serverbound_ids)
  ultimately show ?thesis
    using drive_step [where Q = "\<lambda>c. c = login_waiting cfg" and f = Continue and env = env] by fastforce
qed

lemma drive_login_start:
  assumes "env_ok env inflate" "reads_as inflate None bs LoginStart s" "validate_username (ls_name s) = Inr ()"
  shows "\<exists>c. (current (conn_state c) = Login \<and> compression_threshold (codec c) = announced cfg \<and>
      login_reply inflate env cfg None (ls_name s) (wire c)) \<and>
    (\<forall>rest. drive env inflate (login_waiting cfg) (bs @ rest) = drive env inflate c rest)"
    (is "\<exists>c. ?Q c \<and> _")
proof -
  have "\<exists>c. handle env raw (login_waiting cfg) = (Inr Continue, c) \<and> ?Q c"
    if raw: "raw_id raw = ID LoginStart" "decode_as LoginStart raw = Inr s" for raw
  proof -
    obtain c where "handle_login_start env raw (login_waiting cfg) = (Inr Continue, c)"
        "conn_state c = conn_state (login_waiting cfg)" "compression_threshold (codec c) = announced cfg"
        "login_reply inflate env cfg None (ls_name s) (wire c)"
      by (rule login_start_delivers [OF assms(1) raw(2) assms(3), of "login_waiting cfg"])
         (auto simp: announced_def)
    with raw(1) show ?thesis by (simp add: handle_dispatch serverbound_ids)
  qed
  moreover have "reads_as inflate (compression_threshold (codec (login_waiting cfg))) bs LoginStart s"
    using assms(2) by simp
  ultimately show ?thesis
    using drive_step [where P = LoginStart and x = s and c = "login_waiting cfg" and inflate = inflate
        and Q = ?Q and f = Continue and env = env] by simp
qed

lemma drive_login_acknowledged:
  assumes "current (conn_state c) = Login"
    and "reads_as inflate (compression_threshold (codec c)) bs LoginAcknowledged u"
  shows "\<exists>c'. (current (conn_state c') = Configuration \<and> wire c' = wire c) \<and>
    (\<forall>rest. drive env inflate c (bs @ rest) = drive env inflate c' rest)" (is "\<exists>c'. ?Q c' \<and> _")
proof -
  have "\<exists>c'. handle env raw c = (Inr Continue, c') \<and> ?Q c'" if "raw_id raw = ID LoginAcknowledged" for raw
    using assms(1) that by (simp add: handle_dispatch serverbound_ids handle_login_acknowledged_def move_to_ok)
  then show ?thesis
    using drive_step [OF assms(2), where Q = ?Q and f = Continue and env = env] by simp
qed

text \<open>
  C1: a whole login, over bytes. A client sends a handshake asking for login or transfer, a login start
  with an acceptable name and, in the format the server has switched to by then, the acknowledgement,
  in whatever segments and without waiting for an answer. The server ends in \<open>Configuration\<close> with the
  connection open, and what it sent is exactly one login reply: with compression configured, a frame in
  the old format that reads as \<open>SetCompression\<close> with the configured threshold, then a frame in the new
  format that reads as \<open>LoginSuccess\<close> for the name and its offline UUID; without, the latter alone.
\<close>

theorem login_dialogue:
  assumes "env_ok env inflate"
    and "reads_as inflate None hello_bytes Handshake h" "next_state h \<noteq> NS_Status"
    and "reads_as inflate None start_bytes LoginStart s" "validate_username (ls_name s) = Inr ()"
    and "reads_as inflate (announced cfg) ack_bytes LoginAcknowledged u"
    and "concat chunks = hello_bytes @ start_bytes @ ack_bytes"
  shows "\<exists>c. run_bytes env inflate unfinished (connection_new cfg) [] (map Chunk chunks) = (None, c) \<and>
     current (conn_state c) = Configuration \<and> login_reply inflate env cfg None (ls_name s) (wire c)"
proof -
  let ?w = "login_waiting cfg"
  have d1: "drive env inflate (connection_new cfg) (hello_bytes @ rest) = drive env inflate ?w rest" for rest
    using assms(2,3) by (rule drive_hello_login)
  obtain c where c: "current (conn_state c) = Login" "compression_threshold (codec c) = announced cfg"
      "login_reply inflate env cfg None (ls_name s) (wire c)"
    and d2: "\<And>rest. drive env inflate ?w (start_bytes @ rest) = drive env inflate c rest"
    using drive_login_start [OF assms(1,4,5), of cfg] by blast
  obtain c' where c': "current (conn_state c') = Configuration" "wire c' = wire c"
    and d3: "\<And>rest. drive env inflate c (ack_bytes @ rest) = drive env inflate c' rest"
    using drive_login_acknowledged [OF c(1) assms(6) [folded c(2)], of env] by blast
  have "drive env inflate (connection_new cfg) (concat chunks) = (None, c', [])"
    using d1 d2 d3 [of "[]"] assms(7) by simp
  with c c' show ?thesis by (auto dest: run_bytes_drive)
qed

theorem login_dialogue_witness:
  "\<exists>c. run_bytes ideal_env stored_inflate [] (connection_new server_config_default) []
         (map Chunk [sample_frame Handshake None (sample_hello NS_Transfer) @
            sample_frame LoginStart None \<lparr>ls_name = ascii ''Notch'', ls_uuid = 1\<rparr>,
            sample_frame LoginAcknowledged (Some 256) ()]) = (None, c) \<and>
     current (conn_state c) = Configuration \<and>
     (\<exists>bs1 bs2. wire c = bs1 @ bs2 \<and>
        reads_as stored_inflate None bs1 SetCompression \<lparr>sc_threshold = 256\<rparr> \<and>
        reads_as stored_inflate (Some 256) bs2 LoginSuccess (success_for ideal_env (ascii ''Notch'')))"
  using login_dialogue [OF ideal_env_ok sample_hello_reads [of NS_Transfer] _ sample_start_reads,
      where cfg = server_config_default and unfinished = "[]" and u = "()"
        and ack_bytes = "sample_frame LoginAcknowledged (Some 256) ()"
        and chunks = "[sample_frame Handshake None (sample_hello NS_Transfer) @
            sample_frame LoginStart None \<lparr>ls_name = ascii ''Notch'', ls_uuid = 1\<rparr>,
            sample_frame LoginAcknowledged (Some 256) ()]"]
  by (simp add: sample_name_valid sample_hello_def sample_ack_reads server_config_default_def
      login_reply_def announced_def)

text \<open>
  C24: an unacceptable name. The client receives exactly one frame, in the uncompressed format, that
  reads as \<open>LoginDisconnect\<close> with the rendered reason; the connection then ends with
  \<open>InvalidUsername\<close>, and no login success was ever sent.
\<close>

theorem login_refused:
  assumes "env_ok env inflate"
    and "decode_as Handshake hello = Inr h" "next_state h \<noteq> NS_Status" "raw_id hello = 0"
    and "decode_as LoginStart start = Inr s" "validate_username (ls_name s) = Inl e" "raw_id start = 0"
    and "env_json env (json_of_text (text_component_new invalid_username_text)) = Inr msg"
    and "string_ok MAX_DISCONNECT_REASON_CHARS msg" "length msg \<le> 999000"
  shows "\<exists>c. run env (connection_new cfg) (Frame (Inr hello) # Frame (Inr start) # events) =
       (Some (Inl (InvalidUsername (ls_name s))), c) \<and>
     current (conn_state c) = Login \<and> reads_as inflate None (wire c) LoginDisconnect \<lparr>reason = msg\<rparr>"
proof -
  let ?p = "\<lparr>reason = msg\<rparr>" and ?w = "login_waiting cfg"
  have e: "e = InvalidUsername (ls_name s)"
    using assms(6) by (simp add: validate_username_def split: if_splits)
  have "login_disconnect_ok ?p" using assms(9) by (simp add: login_disconnect_ok_def)
  moreover have "length (write_varint (ID LoginDisconnect) @ fst (encode_body LoginDisconnect ?p)) \<le> 1000000"
    using assms(10) write_varint_short [of "ID LoginDisconnect"] write_varint_short [of "i32_of_usize (length msg)"]
    by (simp add: LoginDisconnect_def write_string_def del: varint_len_bounds)
  ultimately obtain k bs where s: "send env LoginDisconnect ?p ?w = (Inr (), ?w\<lparr>codec := k, wire := wire ?w @ bs\<rparr>)"
      "reads_as inflate (compression_threshold (codec ?w)) bs LoginDisconnect ?p"
    using send_delivers [OF assms(1) LoginDisconnect.packet_impl_axioms, of ?p ?w] by blast
  have "handle_login_start env start ?w = (Inl e, ?w\<lparr>codec := k, wire := bs\<rparr>)"
    using assms(5,6,8) s(1) by (simp add: handle_login_start_def from_component_def)
  with s e show ?thesis
    using hello_login [OF assms(2-4), of env cfg] assms(7) by (simp add: handle_dispatch)
qed

definition bad_start :: raw_packet where
  "bad_start = \<lparr>raw_id = 0, raw_body = fst (encode_body LoginStart \<lparr>ls_name = [], ls_uuid = 0\<rparr>)\<rparr>"

theorem login_refused_witness:
  "\<exists>c. run ideal_env (connection_new server_config_default) [Frame (Inr login_hello), Frame (Inr bad_start)] =
       (Some (Inl (InvalidUsername [])), c) \<and>
     current (conn_state c) = Login \<and> reads_as stored_inflate None (wire c) LoginDisconnect \<lparr>reason = []\<rparr>"
proof -
  have "login_start_ok \<lparr>ls_name = [], ls_uuid = 0\<rparr>" by (simp add: login_start_ok_def string_ok_def)
  then have d: "decode_as LoginStart bad_start = Inr \<lparr>ls_name = [], ls_uuid = 0\<rparr>"
    by (simp add: bad_start_def decode_as_def LoginStart.rd_wr_exact)
  show ?thesis
    using login_refused [OF ideal_env_ok decode_login_hello _ _ d, where msg = "[]" and events = "[]"
        and cfg = server_config_default]
    by (simp add: login_hello_def bad_start_def validate_username_def ideal_env_def string_ok_def)
qed

text \<open>
  C34: nothing ties the acknowledgement to a login. A client that asks for login and sends
  \<open>LoginAcknowledged\<close> at once, without a login start, is moved to \<open>Configuration\<close>: it has no name, no
  identity and received nothing.
\<close>

theorem ack_without_login:
  assumes "decode_as Handshake hello = Inr h" "next_state h \<noteq> NS_Status" "raw_id hello = 0" "raw_id ack = 3"
  shows "\<exists>c. run env (connection_new cfg) [Frame (Inr hello), Frame (Inr ack)] = (None, c) \<and>
     current (conn_state c) = Configuration \<and> wire c = []"
  using hello_login [OF assms(1-3), of env cfg] assms(4)
  by (simp add: handle_dispatch handle_login_acknowledged_def move_to_def transition_def)

theorem ack_without_login_witness:
  "\<exists>c. run ideal_env (connection_new server_config_default)
       [Frame (Inr login_hello), Frame (Inr \<lparr>raw_id = 3, raw_body = []\<rparr>)] = (None, c) \<and>
     current (conn_state c) = Configuration \<and> wire c = []"
  by (rule ack_without_login [OF decode_login_hello]) (simp_all add: login_hello_def)

text \<open>
  C35: nor is a login start limited to one. A second one is answered with a second login reply, and
  with compression configured its \<open>SetCompression\<close> goes out in the compressed format that the first
  one established.
\<close>

theorem repeated_login_start:
  assumes "env_ok env inflate"
    and "decode_as Handshake hello = Inr h" "next_state h \<noteq> NS_Status" "raw_id hello = 0"
    and "decode_as LoginStart f = Inr s" "validate_username (ls_name s) = Inr ()" "raw_id f = 0"
    and "decode_as LoginStart g = Inr s'" "validate_username (ls_name s') = Inr ()" "raw_id g = 0"
    and "cfg_compression_threshold cfg = Some t" "0 \<le> sint t"
  shows "\<exists>c bs1 bs2. run env (connection_new cfg) [Frame (Inr hello), Frame (Inr f), Frame (Inr g)] = (None, c) \<and>
     current (conn_state c) = Login \<and> wire c = bs1 @ bs2 \<and>
     login_reply inflate env cfg None (ls_name s) bs1 \<and>
     login_reply inflate env cfg (Some t) (ls_name s') bs2"
proof -
  let ?w = "login_waiting cfg"
  have t: "announced cfg = Some t" using assms(11,12) by (simp add: announced_def)
  obtain c1 bs1 where l: "handle_login_start env f ?w = (Inr Continue, c1)" "wire c1 = wire ?w @ bs1"
      "conn_state c1 = conn_state ?w" "config c1 = config ?w"
      "compression_threshold (codec c1) =
         (if cfg_compression_threshold (config ?w) = None then compression_threshold (codec ?w)
          else announced (config ?w))"
      "login_reply inflate env (config ?w) (compression_threshold (codec ?w)) (ls_name s) bs1"
    using assms(1,5,6) by (rule login_start_delivers)
  obtain c2 bs2 where m: "handle_login_start env g c1 = (Inr Continue, c2)" "wire c2 = wire c1 @ bs2"
      "conn_state c2 = conn_state c1"
      "login_reply inflate env (config c1) (compression_threshold (codec c1)) (ls_name s') bs2"
    using assms(1,8,9) by (rule login_start_delivers)
  have "run env (connection_new cfg) [Frame (Inr hello), Frame (Inr f), Frame (Inr g)] = (None, c2)"
    using l m hello_login [OF assms(2-4), of env cfg] assms(7,10) by (simp add: handle_dispatch)
  then show ?thesis
    using l m assms(11) t by (intro exI [of _ c2] exI [of _ bs1] exI [of _ bs2]) simp
qed

theorem repeated_login_start_witness:
  "\<exists>c bs1 bs2. run ideal_env (connection_new server_config_default)
       [Frame (Inr login_hello), Frame (Inr (sample_start 1)), Frame (Inr (sample_start 1))] = (None, c) \<and>
     current (conn_state c) = Login \<and> wire c = bs1 @ bs2 \<and>
     login_reply stored_inflate ideal_env server_config_default None (ascii ''Notch'') bs1 \<and>
     login_reply stored_inflate ideal_env server_config_default (Some 256) (ascii ''Notch'') bs2"
  using repeated_login_start [OF ideal_env_ok decode_login_hello _ _ decode_sample_start _ _ decode_sample_start,
      where cfg = server_config_default and t = 256]
  by (simp add: login_hello_def sample_start_def sample_name_valid server_config_default_def)

section \<open>A server list ping, end to end\<close>

text \<open>The three steps of a ping, over bytes.\<close>

lemma drive_hello_status:
  assumes "reads_as inflate None bs Handshake h" "next_state h = NS_Status"
  shows "drive env inflate (connection_new cfg) (bs @ rest) = drive env inflate (status_waiting cfg) rest"
proof -
  have "reads_as inflate (compression_threshold (codec (connection_new cfg))) bs Handshake h"
    using assms(1) by (simp add: connection_new_def codec_new_def)
  moreover have "handle env raw (connection_new cfg) = (Inr Continue, status_waiting cfg)"
    if "raw_id raw = ID Handshake" "decode_as Handshake raw = Inr h" for raw
    using hello_status [OF that(2) assms(2)] that(1) by (simp add: serverbound_ids status_waiting_def)
  ultimately show ?thesis
    using drive_step [where Q = "\<lambda>c. c = status_waiting cfg" and f = Continue and env = env] by fastforce
qed

lemma drive_status_request:
  assumes "env_ok env inflate" "reads_as inflate None bs StatusRequest q"
    and "env_json env (json_of_status (status_response_json_new (motd cfg) (max_players cfg) 0)) = Inr json"
    and "string_ok MAX_STATUS_JSON_CHARS json"
  shows "\<exists>c. (current (conn_state c) = Status \<and> compression_threshold (codec c) = None \<and>
      reads_as inflate None (wire c) StatusResponse \<lparr>status_json = json\<rparr>) \<and>
    (\<forall>rest. drive env inflate (status_waiting cfg) (bs @ rest) = drive env inflate c rest)"
    (is "\<exists>c. ?Q c \<and> _")
proof -
  let ?w = "status_waiting cfg"
  obtain k bs' where "handle_status_request env ?w = (Inr Continue,
        ?w\<lparr>conn_state := (conn_state ?w)\<lparr>status_request_seen := True\<rparr>, codec := k, wire := wire ?w @ bs'\<rparr>)"
      "compression_threshold k = compression_threshold (codec ?w)"
      "reads_as inflate (compression_threshold (codec ?w)) bs' StatusResponse \<lparr>status_json = json\<rparr>"
    by (rule status_request_delivers [OF assms(1), of ?w json]) (use assms(3,4) in simp_all)
  then have "\<exists>c. handle env raw ?w = (Inr Continue, c) \<and> ?Q c" if "raw_id raw = ID StatusRequest" for raw
    using that by (simp add: handle_dispatch serverbound_ids)
  moreover have "reads_as inflate (compression_threshold (codec ?w)) bs StatusRequest q"
    using assms(2) by simp
  ultimately show ?thesis
    using drive_step [where P = StatusRequest and x = q and c = ?w and inflate = inflate
        and Q = ?Q and f = Continue and env = env] by simp
qed

lemma drive_ping:
  assumes "env_ok env inflate" "current (conn_state c) = Status" "compression_threshold (codec c) = None"
    and "reads_as inflate None bs PingRequest p"
  shows "\<exists>c'. (\<exists>bs'. wire c' = wire c @ bs' \<and>
      reads_as inflate None bs' PongResponse \<lparr>pong_payload = ping_payload p\<rparr>) \<and>
    (\<forall>rest. drive env inflate c (bs @ rest) = (Some (Inr ()), c', rest))" (is "\<exists>c'. ?Q c' \<and> _")
proof -
  have "\<exists>c'. handle env raw c = (Inr Close, c') \<and> ?Q c'"
    if raw: "raw_id raw = ID PingRequest" "decode_as PingRequest raw = Inr p" for raw
  proof -
    obtain k bs' where "handle_ping env raw c = (Inr Close, c\<lparr>codec := k, wire := wire c @ bs'\<rparr>)"
        "reads_as inflate (compression_threshold (codec c)) bs' PongResponse \<lparr>pong_payload = ping_payload p\<rparr>"
      using assms(1) raw(2) by (rule ping_delivers)
    with raw(1) assms(2,3) show ?thesis by (simp add: handle_dispatch serverbound_ids)
  qed
  with assms(4) show ?thesis
    using drive_step [where P = PingRequest and x = p and c = c and inflate = inflate
        and Q = ?Q and f = Close and env = env] assms(3) by simp
qed

text \<open>
  C16: a whole server list ping, over bytes, in whatever segments. After a status handshake, a status
  request and a ping are answered with one uncompressed frame that reads as the status document for
  this configuration and one that reads as the pong carrying the ping's payload unchanged; the server
  then closes the connection normally, whatever else the client sends.
\<close>

theorem status_dialogue:
  assumes "env_ok env inflate"
    and "reads_as inflate None hello_bytes Handshake h" "next_state h = NS_Status"
    and "reads_as inflate None request_bytes StatusRequest q"
    and "reads_as inflate None ping_bytes PingRequest p"
    and "env_json env (json_of_status (status_response_json_new (motd cfg) (max_players cfg) 0)) = Inr json"
    and "string_ok MAX_STATUS_JSON_CHARS json"
    and "concat chunks = hello_bytes @ request_bytes @ ping_bytes @ rest"
  shows "\<exists>c bs1 bs2.
     run_bytes env inflate unfinished (connection_new cfg) [] (map Chunk chunks) = (Some (Inr ()), c) \<and>
     wire c = bs1 @ bs2 \<and>
     reads_as inflate None bs1 StatusResponse \<lparr>status_json = json\<rparr> \<and>
     reads_as inflate None bs2 PongResponse \<lparr>pong_payload = ping_payload p\<rparr>"
proof -
  have d1: "drive env inflate (connection_new cfg) (hello_bytes @ rest) =
      drive env inflate (status_waiting cfg) rest" for rest
    using assms(2,3) by (rule drive_hello_status)
  obtain c where c: "current (conn_state c) = Status" "compression_threshold (codec c) = None"
      "reads_as inflate None (wire c) StatusResponse \<lparr>status_json = json\<rparr>"
    and d2: "\<And>rest. drive env inflate (status_waiting cfg) (request_bytes @ rest) = drive env inflate c rest"
    using drive_status_request [OF assms(1,4,6,7)] by blast
  obtain c' bs where c': "wire c' = wire c @ bs"
      "reads_as inflate None bs PongResponse \<lparr>pong_payload = ping_payload p\<rparr>"
    and d3: "\<And>rest. drive env inflate c (ping_bytes @ rest) = (Some (Inr ()), c', rest)"
    using drive_ping [OF assms(1) c(1,2) assms(5)] by blast
  have "drive env inflate (connection_new cfg) (concat chunks) = (Some (Inr ()), c', rest)"
    using d1 d2 d3 assms(8) by simp
  with c c' show ?thesis by (auto dest: run_bytes_drive)
qed

theorem status_dialogue_witness:
  "\<exists>c bs1 bs2.
     run_bytes ideal_env stored_inflate [] (connection_new server_config_default) []
       (map Chunk [sample_frame Handshake None (sample_hello NS_Status), sample_frame StatusRequest None () @
          sample_frame PingRequest None \<lparr>ping_payload = 42\<rparr>, [0xFF]]) = (Some (Inr ()), c) \<and>
     wire c = bs1 @ bs2 \<and>
     reads_as stored_inflate None bs1 StatusResponse \<lparr>status_json = []\<rparr> \<and>
     reads_as stored_inflate None bs2 PongResponse \<lparr>pong_payload = 42\<rparr>"
  using status_dialogue [OF ideal_env_ok sample_hello_reads [of NS_Status] _ sample_request_reads
      sample_ping_reads [of "\<lparr>ping_payload = 42\<rparr>"], where json = "[]" and cfg = server_config_default
      and unfinished = "[]" and rest = "[0xFF]"
      and chunks = "[sample_frame Handshake None (sample_hello NS_Status), sample_frame StatusRequest None () @
          sample_frame PingRequest None \<lparr>ping_payload = 42\<rparr>, [0xFF]]"]
  by (simp add: sample_hello_def ideal_env_def string_ok_def)

end
